theory Spec2Isabelle
  imports Main
begin

section \<open>The logger of \<^verbatim>\<open>logger.ts\<close>: data\<close>

text \<open>
  Strings are lists of bytes: a JavaScript string is modelled by its UTF-8 encoding, so
  \<^verbatim>\<open>new TextEncoder().encode(text)\<close> is the identity and a \<^verbatim>\<open>Uint8Array\<close> is a
  \<open>string\<close> as well. A path is the list of its segments below the file-system root.
\<close>

type_synonym bytes = string
type_synonym path = "string list"

text \<open>
  The values a caller can pass as \<^verbatim>\<open>MessageLog\<close> (the type ends in \<^verbatim>\<open>| any\<close>) or store in
  \<^verbatim>\<open>Log.values\<close>. The logger looks at a value in five ways only: its \<^verbatim>\<open>constructor\<close>, whether
  it is an array, its property \<^verbatim>\<open>replace\<close>, its string form, and its truth value.
  \<open>JNumber\<close> is a number, given by the text \<^verbatim>\<open>Number.prototype.toString\<close> returns for it and
  by its truth value (false for \<^verbatim>\<open>0\<close> and \<^verbatim>\<open>NaN\<close>); \<open>JError\<close> is an object whose \<^verbatim>\<open>constructor\<close>
  is \<^verbatim>\<open>Error\<close>, with its \<^verbatim>\<open>message\<close> and its \<^verbatim>\<open>stack\<close>; \<open>JPlain\<close> is an object whose
  \<^verbatim>\<open>constructor\<close> is \<^verbatim>\<open>Object\<close>, with its own properties in the order JavaScript lists
  them; \<open>JForeign\<close> is any other value (an instance of another class, a function, an
  object without prototype such as \<^verbatim>\<open>Object.create(null)\<close>), given by the string its
  \<^verbatim>\<open>toString()\<close> returns, \<open>None\<close> when \<^verbatim>\<open>toString\<close> is missing, throws or returns no string.
  A property of a \<open>JPlain\<close> is data: a plain object that holds a function under
  \<^verbatim>\<open>toString\<close>, \<^verbatim>\<open>valueOf\<close> or \<^verbatim>\<open>replace\<close> is not among the values, and neither is a
  symbol (its \<^verbatim>\<open>toString()\<close> returns while a template literal throws).
\<close>

datatype jsval =
    JUndefined
  | JNull
  | JBool bool
  | JNumber string bool
  | JString string
  | JError string "string option"
  | JPlain "(string \<times> jsval) list"
  | JArray "jsval list"
  | JForeign "string option"

text \<open>
  The fields of class \<^verbatim>\<open>Log\<close> (lines 111-116, 154-161, 248, 360). The leading underscore of
  the private fields is dropped. \<open>logFile\<close> holds the resource id of the open
  \<^verbatim>\<open>Deno.FsFile\<close>, \<open>logFileTimeout\<close> the id \<^verbatim>\<open>setTimeout\<close> returned; \<open>fileTimeout\<close> is a whole
  number of milliseconds.
\<close>

record Log =
  logFile :: "nat option"
  logFileTimeout :: "nat option"
  logFileTaken :: bool
  logFileDate :: string
  logValues :: "(string \<times> jsval) list"
  shouldConsoleLog :: bool
  shouldSaveConsole :: bool
  fileTimeout :: int
  relativePath :: "string list"
  logDataQueue :: "bytes list"

text \<open>
  What the code reaches outside the instance: the working directory (\<^verbatim>\<open>Deno.cwd()\<close>), the
  contents of the files, the table of open file resources, the pending timers (id and due
  time, all with callback \<^verbatim>\<open>closeLogs\<close>), the clock in milliseconds, the two console
  streams, and the module variable \<^verbatim>\<open>relativePathBeingDisplayed\<close> (line 384).
\<close>

datatype stream = Out | Err

record Runtime =
  cwd :: path
  files :: "path \<rightharpoonup> bytes"
  openFiles :: "nat \<rightharpoonup> path"
  nextRid :: nat
  timers :: "(nat \<times> nat) list"
  nextTimerId :: nat
  clock :: nat
  console :: "(stream \<times> string) list"
  relativePathBeingDisplayed :: string

datatype error = TypeError | BadResource | MkdirFailed | OpenFailed | WriteFailed

section \<open>The runtime: paths, files, timers\<close>

text \<open>
  \<^verbatim>\<open>Path.resolve\<close> on segments that hold no separator: empty segments and \<^verbatim>\<open>.\<close> are
  dropped, \<^verbatim>\<open>..\<close> removes the segment before it (and stays at the root).
\<close>

definition resolve_step :: "path \<Rightarrow> string \<Rightarrow> path" where
  "resolve_step acc s =
     (if s = '''' \<or> s = ''.'' then acc
      else if s = ''..'' then butlast acc
      else acc @ [s])"

definition Path_resolve :: "string list \<Rightarrow> path" where
  "Path_resolve segs = foldl resolve_step [] segs"

text \<open>\<^verbatim>\<open>rootFolderToLogs = Path.join(rootFolder, "logs")\<close> (lines 63-64).\<close>

definition rootFolderToLogs :: "Runtime \<Rightarrow> path" where
  "rootFolderToLogs w = cwd w @ [''logs'']"

text \<open>The getter \<^verbatim>\<open>absolutePath\<close> (lines 353-359).\<close>

definition absolutePath :: "Log \<Rightarrow> Runtime \<Rightarrow> path" where
  "absolutePath l w = Path_resolve (rootFolderToLogs w @ [logFileDate l] @ relativePath l)"

text \<open>
  \<^verbatim>\<open>Deno.open(p, {create: true, append: true})\<close> when it succeeds: a fresh resource id
  for \<open>p\<close>, and an empty file when there was none. Directories are not part of the
  model: \<^verbatim>\<open>Deno.mkdir\<close> and \<^verbatim>\<open>Deno.open\<close> succeed or fail as the environment says, and a
  write either appends the whole buffer or fails. (Line 267 passes to \<^verbatim>\<open>Deno.mkdir\<close> the
  part of the path before the first occurrence of the file name; when the name occurs
  earlier in the path, as for \<^verbatim>\<open>new Log("t.log/t")\<close>, that is not the folder of the file,
  and \<^verbatim>\<open>Deno.open\<close> fails unless the folder exists already.)
\<close>

definition Deno_open :: "path \<Rightarrow> Runtime \<Rightarrow> nat \<times> Runtime" where
  "Deno_open p w =
     (nextRid w,
      w\<lparr>openFiles := (openFiles w)(nextRid w \<mapsto> p),
        files := (case files w p of None \<Rightarrow> (files w)(p \<mapsto> []) | Some c \<Rightarrow> files w),
        nextRid := Suc (nextRid w)\<rparr>)"

text \<open>\<^verbatim>\<open>FsFile.close()\<close>: the resource leaves the table.\<close>

definition FsFile_close :: "nat \<Rightarrow> Runtime \<Rightarrow> Runtime" where
  "FsFile_close f w = w\<lparr>openFiles := (openFiles w)(f := None)\<rparr>"

text \<open>A completed \<^verbatim>\<open>FsFile.write(d)\<close> on a file opened for appending: \<open>d\<close> goes to the end.\<close>

definition append_file :: "path \<Rightarrow> bytes \<Rightarrow> Runtime \<Rightarrow> Runtime" where
  "append_file p d w =
     w\<lparr>files := (files w)(p \<mapsto> (case files w p of None \<Rightarrow> d | Some c \<Rightarrow> c @ d))\<rparr>"

text \<open>
  \<^verbatim>\<open>setTimeout(this.closeLogs, ms)\<close>: a new pending timer, due after the delay, and its
  id. The runtime takes a negative delay as none and a delay above \<open>2^31 - 1\<close> as one
  millisecond. \<^verbatim>\<open>clearTimeout(t)\<close> removes the timer.
\<close>

definition timer_delay :: "int \<Rightarrow> nat" where
  "timer_delay ms = (if ms > 2147483647 then 1 else nat ms)"

definition setTimeout :: "int \<Rightarrow> Runtime \<Rightarrow> nat \<times> Runtime" where
  "setTimeout ms w =
     (nextTimerId w,
      w\<lparr>timers := timers w @ [(nextTimerId w, clock w + timer_delay ms)],
        nextTimerId := Suc (nextTimerId w)\<rparr>)"

definition clearTimeout :: "nat \<Rightarrow> Runtime \<Rightarrow> Runtime" where
  "clearTimeout t w = w\<lparr>timers := filter (\<lambda>(i, due). i \<noteq> t) (timers w)\<rparr>"

text \<open>The truth value JavaScript gives a \<^verbatim>\<open>number | null\<close>: \<^verbatim>\<open>null\<close> and \<^verbatim>\<open>0\<close> are falsy.\<close>

definition truthy_id :: "nat option \<Rightarrow> bool" where
  "truthy_id t = (case t of None \<Rightarrow> False | Some n \<Rightarrow> n \<noteq> 0)"

section \<open>The log writer\<close>

text \<open>\<^verbatim>\<open>closeLogs\<close> (lines 294-302).\<close>

definition closeLogs :: "Log \<Rightarrow> Runtime \<Rightarrow> Log \<times> Runtime" where
  "closeLogs l w =
     (case logFile l of
        None \<Rightarrow> (l, w)
      | Some f \<Rightarrow>
          (l\<lparr>logFile := None, logFileTimeout := None\<rparr>,
           (if truthy_id (logFileTimeout l)
            then clearTimeout (the (logFileTimeout l)) (FsFile_close f w)
            else FsFile_close f w)))"

text \<open>
  \<^verbatim>\<open>writeLog\<close> (lines 253-286) is an async function: it runs until an \<^verbatim>\<open>await\<close>, and goes on
  when the awaited operation has settled. The three places where it waits follow. A
  write is started on the file its resource is open on, and goes to the end of that file
  when it settles, also when the resource has been closed in between.
\<close>

datatype pc =
    AwaitMkdir path
  | AwaitOpen path
  | AwaitWrite nat path bytes

datatype status = Suspended pc | Returned | Threw error

datatype io_result = IoOk | IoFail

text \<open>
  The loop of lines 280-282 from iteration \<open>i\<close> to its next \<^verbatim>\<open>await\<close>, and lines 283-285
  when the array iterator is exhausted. The iterator compares its index with the length
  the array has now; \<^verbatim>\<open>this._logFile.write\<close> is a \<^verbatim>\<open>TypeError\<close> when the field is
  \<^verbatim>\<open>null\<close>.
\<close>

definition writeLog_loop :: "nat \<Rightarrow> Log \<Rightarrow> Runtime \<Rightarrow> status \<times> Log \<times> Runtime" where
  "writeLog_loop i l w =
     (if i < length (logDataQueue l) then
        (case logFile l of
           None \<Rightarrow> (Threw TypeError, l, w)
         | Some f \<Rightarrow>
             (case openFiles w f of
                None \<Rightarrow> (Threw BadResource, l, w)
              | Some p \<Rightarrow> (Suspended (AwaitWrite i p (logDataQueue l ! i)), l, w)))
      else
        (let l1 = l\<lparr>logDataQueue := [], logFileTaken := False\<rparr>
         in if \<not> truthy_id (logFileTimeout l1)
            then (case closeLogs l1 w of (l2, w2) \<Rightarrow> (Returned, l2, w2))
            else (Returned, l1, w)))"

text \<open>Lines 254-267, from the call to the first \<^verbatim>\<open>await\<close>; \<open>date\<close> is today's folder name.\<close>

definition writeLog_begin :: "string \<Rightarrow> bytes \<Rightarrow> Log \<Rightarrow> Runtime \<Rightarrow> status \<times> Log \<times> Runtime" where
  "writeLog_begin date data l w =
     (let l1 = l\<lparr>logDataQueue := logDataQueue l @ [data]\<rparr>
      in if logFileTaken l1 then (Returned, l1, w)
         else if logFile l1 = None \<or> logFileDate l1 \<noteq> date then
           (case closeLogs (l1\<lparr>logFileDate := date\<rparr>) w of
              (l2, w2) \<Rightarrow> (Suspended (AwaitMkdir (absolutePath l2 w2)), l2, w2))
         else writeLog_loop 0 l1 w)"

text \<open>
  The continuation after each \<^verbatim>\<open>await\<close>, given how the awaited operation settled. In line
  274 \<^verbatim>\<open>this.fileTimeout ?? 0 > 0\<close> parses as \<^verbatim>\<open>this.fileTimeout ?? (0 > 0)\<close>, so the timer
  is set when \<^verbatim>\<open>fileTimeout\<close> is truthy, that is, not \<^verbatim>\<open>0\<close>.
\<close>

fun writeLog_resume :: "io_result \<Rightarrow> pc \<Rightarrow> Log \<Rightarrow> Runtime \<Rightarrow> status \<times> Log \<times> Runtime" where
  "writeLog_resume IoFail (AwaitMkdir p) l w = (Threw MkdirFailed, l, w)"
| "writeLog_resume IoOk (AwaitMkdir p) l w = (Suspended (AwaitOpen p), l, w)"
| "writeLog_resume IoFail (AwaitOpen p) l w = (Threw OpenFailed, l, w)"
| "writeLog_resume IoOk (AwaitOpen p) l w =
     (case Deno_open p w of
        (f, w1) \<Rightarrow>
          (if fileTimeout l \<noteq> 0
           then (case setTimeout (fileTimeout l) w1 of
                   (t, w2) \<Rightarrow> writeLog_loop 0 (l\<lparr>logFile := Some f, logFileTimeout := Some t\<rparr>) w2)
           else writeLog_loop 0 (l\<lparr>logFile := Some f, logFileTimeout := None\<rparr>) w1))"
| "writeLog_resume IoFail (AwaitWrite i p d) l w = (Threw WriteFailed, l, w)"
| "writeLog_resume IoOk (AwaitWrite i p d) l w = writeLog_loop (Suc i) l (append_file p d w)"

text \<open>
  One call of \<^verbatim>\<open>writeLog\<close> that is awaited, with nothing else running until it has
  returned: no other call starts and no timer fires while it waits. The environment of
  the call: today's date, and whether \<^verbatim>\<open>Deno.mkdir\<close>, \<^verbatim>\<open>Deno.open\<close> and the write of the
  \<open>i\<close>-th queue entry succeed.
\<close>

record io =
  today :: string
  mkdirOk :: bool
  openOk :: bool
  writeOk :: "nat \<Rightarrow> bool"

fun answer :: "io \<Rightarrow> pc \<Rightarrow> io_result" where
  "answer e (AwaitMkdir p) = (if mkdirOk e then IoOk else IoFail)"
| "answer e (AwaitOpen p) = (if openOk e then IoOk else IoFail)"
| "answer e (AwaitWrite i p d) = (if writeOk e i then IoOk else IoFail)"

fun rank :: "status \<Rightarrow> Log \<Rightarrow> nat" where
  "rank (Suspended (AwaitMkdir p)) l = length (logDataQueue l) + 3"
| "rank (Suspended (AwaitOpen p)) l = length (logDataQueue l) + 2"
| "rank (Suspended (AwaitWrite i p d)) l = Suc (length (logDataQueue l) - i)"
| "rank Returned l = 0"
| "rank (Threw x) l = 0"

lemma rank_writeLog_loop:
  "(case writeLog_loop (Suc i) l w of (st, l', w') \<Rightarrow> rank st l') < Suc (length (logDataQueue l) - i)"
  by (auto simp: writeLog_loop_def closeLogs_def Let_def split: option.splits)

lemma rank_writeLog_loop_0:
  "(case writeLog_loop 0 l w of (st, l', w') \<Rightarrow> rank st l') < length (logDataQueue l) + 2"
  by (auto simp: writeLog_loop_def closeLogs_def Let_def split: option.splits)

lemma rank_writeLog_resume:
  "(case writeLog_resume r p l w of (st, l', w') \<Rightarrow> rank st l') < rank (Suspended p) l"
proof (cases p)
  case (AwaitMkdir q)
  then show ?thesis by (cases r) simp_all
next
  case (AwaitOpen q)
  show ?thesis
  proof (cases r)
    case IoOk
    obtain f w1 where o: "Deno_open q w = (f, w1)" by (cases "Deno_open q w")
    obtain t w2 where t: "setTimeout (fileTimeout l) w1 = (t, w2)"
      by (cases "setTimeout (fileTimeout l) w1")
    show ?thesis
      using rank_writeLog_loop_0 [of "l\<lparr>logFile := Some f, logFileTimeout := Some t\<rparr>" w2]
        rank_writeLog_loop_0 [of "l\<lparr>logFile := Some f, logFileTimeout := None\<rparr>" w1]
      by (simp add: AwaitOpen IoOk o t)
  next
    case IoFail
    then show ?thesis by (simp add: AwaitOpen)
  qed
next
  case (AwaitWrite i q d)
  show ?thesis
  proof (cases r)
    case IoOk
    then show ?thesis
      using rank_writeLog_loop [of i l "append_file q d w"] by (simp add: AwaitWrite)
  next
    case IoFail
    then show ?thesis by (simp add: AwaitWrite)
  qed
qed

function writeLog_run :: "io \<Rightarrow> status \<times> Log \<times> Runtime \<Rightarrow> status \<times> Log \<times> Runtime" where
  "writeLog_run e (Suspended p, l, w) = writeLog_run e (writeLog_resume (answer e p) p l w)"
| "writeLog_run e (Returned, l, w) = (Returned, l, w)"
| "writeLog_run e (Threw x, l, w) = (Threw x, l, w)"
  by pat_completeness auto
termination
proof (relation "measure (\<lambda>(e, st, l, w). rank st l)")
  show "wf (measure (\<lambda>(e, st, l, w). rank st l))" by simp
next
  fix e p l w
  show "((e, writeLog_resume (answer e p) p l w), (e, Suspended p, l, w))
        \<in> measure (\<lambda>(e, st, l, w). rank st l)"
    using rank_writeLog_resume [of "answer e p" p l w]
    by (cases "writeLog_resume (answer e p) p l w") simp
qed

definition writeLog :: "io \<Rightarrow> bytes \<Rightarrow> Log \<Rightarrow> Runtime \<Rightarrow> status \<times> Log \<times> Runtime" where
  "writeLog e data l w = writeLog_run e (writeLog_begin (today e) data l w)"

section \<open>Strings\<close>

text \<open>The string operations of JavaScript that the logger uses.\<close>

definition starts_with :: "string \<Rightarrow> string \<Rightarrow> bool" where
  "starts_with s p = (take (length p) s = p)"

text \<open>\<^verbatim>\<open>s.includes(p)\<close>.\<close>

fun str_includes :: "string \<Rightarrow> string \<Rightarrow> bool" where
  "str_includes [] p = (p = [])"
| "str_includes (x # xs) p = (starts_with (x # xs) p \<or> str_includes xs p)"

text \<open>
  The replacement text of \<^verbatim>\<open>replace\<close> and \<^verbatim>\<open>replaceAll\<close> with a string pattern: in it
  \<^verbatim>\<open>$$\<close> stands for a dollar sign, \<^verbatim>\<open>$&\<close> for the match, and a dollar sign before a
  backquote or a quote for the text before or after the match.
\<close>

fun expand :: "string \<Rightarrow> string \<Rightarrow> string \<Rightarrow> string \<Rightarrow> string" where
  "expand [] m pre post = []"
| "expand [c] m pre post = [c]"
| "expand (c # d # cs) m pre post =
     (if c = CHR ''$'' \<and> d = CHR ''$'' then CHR ''$'' # expand cs m pre post
      else if c = CHR ''$'' \<and> d = CHR ''&'' then m @ expand cs m pre post
      else if c = CHR ''$'' \<and> d = CHR 0x60 then pre @ expand cs m pre post
      else if c = CHR ''$'' \<and> d = CHR 0x27 then post @ expand cs m pre post
      else c # expand (d # cs) m pre post)"

text \<open>\<^verbatim>\<open>s.replace(p, r)\<close> for a string \<open>p\<close>: the first occurrence; \<open>pre\<close> is what was passed.\<close>

fun replace_from :: "string \<Rightarrow> string \<Rightarrow> string \<Rightarrow> string \<Rightarrow> string" where
  "replace_from pre [] p r = (if p = [] then pre @ expand r [] pre [] else pre)"
| "replace_from pre (x # xs) p r =
     (if starts_with (x # xs) p
      then pre @ expand r p pre (drop (length p) (x # xs)) @ drop (length p) (x # xs)
      else replace_from (pre @ [x]) xs p r)"

definition js_replace :: "string \<Rightarrow> string \<Rightarrow> string \<Rightarrow> string" where
  "js_replace s p r = replace_from [] s p r"

text \<open>
  \<^verbatim>\<open>s.replaceAll(p, r)\<close> for a string \<open>p\<close> that is not empty (the logger passes
  \<^verbatim>\<open>terminalColor.special.normal\<close>): every occurrence, from left to right.
\<close>

fun replaceAll_from :: "string \<Rightarrow> string \<Rightarrow> string \<Rightarrow> string \<Rightarrow> string" where
  "replaceAll_from pre [] p r = []"
| "replaceAll_from pre (x # xs) p r =
     (if starts_with (x # xs) p
      then expand r p pre (drop (length p) (x # xs))
           @ replaceAll_from (pre @ p) (drop (length p - 1) xs) p r
      else x # replaceAll_from (pre @ [x]) xs p r)"

definition replaceAll :: "string \<Rightarrow> string \<Rightarrow> string \<Rightarrow> string" where
  "replaceAll s p r = replaceAll_from [] s p r"

text \<open>\<^verbatim>\<open>s.split(c)\<close> for a separator of one character, and \<^verbatim>\<open>xs.join(sep)\<close>.\<close>

fun str_split :: "char \<Rightarrow> string \<Rightarrow> string list" where
  "str_split c [] = [[]]"
| "str_split c (x # xs) =
     (if x = c then [] # str_split c xs
      else (case str_split c xs of [] \<Rightarrow> [[x]] | y # ys \<Rightarrow> (x # y) # ys))"

fun str_join :: "string \<Rightarrow> string list \<Rightarrow> string" where
  "str_join sep [] = []"
| "str_join sep [x] = x"
| "str_join sep (x # y # ys) = x @ sep @ str_join sep (y # ys)"

definition charAt :: "string \<Rightarrow> nat \<Rightarrow> string" where
  "charAt s i = (if i < length s then [s ! i] else [])"

definition endsWith :: "string \<Rightarrow> string \<Rightarrow> bool" where
  "endsWith s p = (length p \<le> length s \<and> drop (length s - length p) s = p)"

text \<open>
  The abstract operation \<^verbatim>\<open>ToString\<close>, which a template literal applies and which agrees
  with the method \<^verbatim>\<open>toString()\<close> on every value here that has one; \<open>None\<close> is a
  \<^verbatim>\<open>TypeError\<close>. A plain object gives \<^verbatim>\<open>[object Object]\<close>, unless it has a property
  \<^verbatim>\<open>toString\<close> of its own: that is data, not a function, and neither it nor \<^verbatim>\<open>valueOf\<close>
  yields a string. An array joins its elements with commas, \<^verbatim>\<open>null\<close> and \<^verbatim>\<open>undefined\<close>
  elements giving the empty string.
\<close>

fun ToString :: "jsval \<Rightarrow> string option" where
  "ToString JUndefined = Some ''undefined''"
| "ToString JNull = Some ''null''"
| "ToString (JBool b) = Some (if b then ''true'' else ''false'')"
| "ToString (JNumber s t) = Some s"
| "ToString (JString s) = Some s"
| "ToString (JError m st) = Some (if m = [] then ''Error'' else ''Error: '' @ m)"
| "ToString (JPlain kvs) = (if map_of kvs ''toString'' = None then Some ''[object Object]'' else None)"
| "ToString (JArray xs) =
     map_option (str_join '','')
       (those (map (\<lambda>x. if x = JUndefined \<or> x = JNull then Some [] else ToString x) xs))"
| "ToString (JForeign s) = s"

text \<open>The truth value of a value.\<close>

fun js_truthy :: "jsval \<Rightarrow> bool" where
  "js_truthy JUndefined = False"
| "js_truthy JNull = False"
| "js_truthy (JBool b) = b"
| "js_truthy (JNumber s t) = t"
| "js_truthy (JString s) = (s \<noteq> [])"
| "js_truthy v = True"

text \<open>\<^verbatim>\<open>isObject\<close> (lines 483-486) and \<^verbatim>\<open>Array.isArray\<close>.\<close>

fun isObject :: "jsval \<Rightarrow> bool" where
  "isObject (JPlain kvs) = True"
| "isObject v = False"

fun Array_isArray :: "jsval \<Rightarrow> bool" where
  "Array_isArray (JArray xs) = True"
| "Array_isArray v = False"

section \<open>Colours\<close>

text \<open>\<^verbatim>\<open>terminalColor\<close> (lines 531-562), the entries the logger uses.\<close>

definition ESC :: char where
  "ESC = CHR 0x1B"

definition foreground_red :: string where "foreground_red = ESC # ''[31m''"
definition foreground_green :: string where "foreground_green = ESC # ''[32m''"
definition foreground_yellow :: string where "foreground_yellow = ESC # ''[33m''"
definition foreground_magenta :: string where "foreground_magenta = ESC # ''[35m''"
definition foreground_cyan :: string where "foreground_cyan = ESC # ''[36m''"
definition foreground_white :: string where "foreground_white = ESC # ''[37m''"
definition background_red :: string where "background_red = ESC # ''[41m''"
definition background_cyan :: string where "background_cyan = ESC # ''[46m''"
definition special_normal :: string where "special_normal = ESC # ''[0m''"

text \<open>
  The type \<^verbatim>\<open>TerminalColor\<close> (lines 566-569): the values of the table, foreground,
  background and special. (The table gives \<^verbatim>\<open>background.yellow\<close> the code of
  \<^verbatim>\<open>background.blue\<close>.)
\<close>

definition TerminalColor :: "string list" where
  "TerminalColor =
     map (\<lambda>code. ESC # ''['' @ code @ ''m'')
       [''30'', ''31'', ''32'', ''33'', ''34'', ''35'', ''36'', ''37'',
        ''40'', ''41'', ''42'', ''44'', ''44'', ''45'', ''46'', ''47'',
        ''0'', ''1'', ''2'', ''4'', ''5'', ''7'', ''8'']"

text \<open>\<^verbatim>\<open>colorString\<close> (lines 523-529); the default of \<open>suffixes\<close> is \<open>[special_normal]\<close>.\<close>

definition colorString :: "string \<Rightarrow> string list \<Rightarrow> string list \<Rightarrow> string" where
  "colorString s prefixes suffixes = concat prefixes @ s @ concat suffixes"

text \<open>The three borders (lines 6-8), in UTF-8.\<close>

definition headerPrefix :: string where
  "headerPrefix = [CHR 0xE2, CHR 0x95, CHR 0x94] @ concat (replicate 4 [CHR 0xE2, CHR 0x95, CHR 0x90]) @ '' ''"

definition middlePrefix :: string where
  "middlePrefix = [CHR 0xE2, CHR 0x95, CHR 0x91] @ '' ''"

definition footerPrefix :: string where
  "footerPrefix = [CHR 0xE2, CHR 0x95, CHR 0x9A] @ concat (replicate 9 [CHR 0xE2, CHR 0x95, CHR 0x90]) @ '' ''"

section \<open>The console window formatter\<close>

text \<open>
  What the logger asks of its host besides files and timers: \<^verbatim>\<open>Deno.inspect\<close> with colours
  (the argument is the \<^verbatim>\<open>depth\<close> option, if given), the stack frame \<^verbatim>\<open>getFileCode\<close>
  finds at a depth (its file and line, \<open>None\<close> when the frame cannot be read), the time
  of day as \<^verbatim>\<open>h:mm:ss A\<close>, and \<^verbatim>\<open>crypto.randomUUID()\<close>. The stack differs between the two
  functions that call \<^verbatim>\<open>getFileCode\<close>.
\<close>

datatype site = InCustom | InCreateNewLog

record host =
  inspect :: "nat option \<Rightarrow> jsval \<Rightarrow> string"
  frame :: "site \<Rightarrow> nat \<Rightarrow> (string \<times> string) option"
  timestamp :: string
  randomUUID :: string

text \<open>
  \<^verbatim>\<open>getFileCode\<close> (lines 493-515): every failure inside is caught and gives
  \<^verbatim>\<open>[unknown]\<close>. How the frame is cut into file and line is left to the host.
\<close>

definition getFileCode :: "host \<Rightarrow> site \<Rightarrow> nat \<Rightarrow> string" where
  "getFileCode h s getLine =
     (case frame h s getLine of
        None \<Rightarrow> ''[unknown]''
      | Some (filePath, lineNumber) \<Rightarrow> ''['' @ filePath @ '':'' @ lineNumber @ '']'')"

definition console_print :: "stream \<Rightarrow> string \<Rightarrow> Runtime \<Rightarrow> Runtime" where
  "console_print s line w = w\<lparr>console := console w @ [(s, line)]\<rparr>"

text \<open>A path as the string \<^verbatim>\<open>Path.join\<close> returns.\<close>

definition path_string :: "path \<Rightarrow> string" where
  "path_string p = (if p = [] then ''/'' else concat (map (\<lambda>s. ''/'' @ s) p))"

text \<open>The result of a call that returns or throws.\<close>

datatype 'a completion = Normal 'a | Throw error

text \<open>
  Lines 400-419 of \<^verbatim>\<open>custom\<close>: an \<^verbatim>\<open>Error\<close> becomes its stack, the first line and the
  lines that name the project's \<^verbatim>\<open>src\<close> or \<^verbatim>\<open>dist\<close> folder marked, every line in red,
  and the call counts as an error.
\<close>

definition mark_line :: "Runtime \<Rightarrow> nat \<times> string \<Rightarrow> string" where
  "mark_line w im =
     (case im of (i, msg) \<Rightarrow>
        colorString
          (if i = 0 \<or> str_includes msg (path_string (cwd w @ [''src'']))
                \<or> str_includes msg (path_string (cwd w @ [''dist'']))
           then colorString msg [background_red, foreground_white] [special_normal]
           else msg)
          [foreground_red] [special_normal])"

definition parse_error :: "Runtime \<Rightarrow> jsval \<Rightarrow> bool \<Rightarrow> jsval \<times> bool" where
  "parse_error w message isError =
     (case message of
        JError m stack \<Rightarrow>
          (let lines = str_split CHR 0x0A (case stack of None \<Rightarrow> [] | Some s \<Rightarrow> s)
           in (JString (str_join [CHR 0x0A] (map (mark_line w) (enumerate 0 lines))), True))
      | _ \<Rightarrow> (message, isError))"

text \<open>Lines 420-424: the text of the message.\<close>

definition parse_message :: "host \<Rightarrow> jsval \<Rightarrow> string completion" where
  "parse_message h message =
     (if isObject message \<or> Array_isArray message then Normal (inspect h (Some 5) message)
      else if message \<noteq> JUndefined then
        (if message \<noteq> JNull then
           (case ToString message of None \<Rightarrow> Throw TypeError | Some s \<Rightarrow> Normal s)
         else Normal ''null'')
      else Normal ''undefined'')"

text \<open>
  The loop of lines 425-430, with \<open>c\<close> for \<^verbatim>\<open>colors.join("")\<close>. It does not end when
  every replacement brings a new occurrence of \<^verbatim>\<open>terminalColor.special.normal\<close>; then
  the value is \<open>None\<close>.
\<close>

partial_function (option) recolor :: "string \<Rightarrow> string \<Rightarrow> string option" where
  "recolor c message =
     (if str_includes message special_normal
      then recolor c (js_replace message special_normal c)
      else Some message)"

text \<open>Lines 432-444: every line after the first gets the middle prefix.\<close>

definition indent_line :: "nat \<times> string \<Rightarrow> string" where
  "indent_line il =
     (case il of (i, line) \<Rightarrow>
        (if i > 0 then colorString middlePrefix [special_normal, foreground_red] [special_normal]
         else []) @ line)"

definition indent_lines :: "string \<Rightarrow> string" where
  "indent_lines message =
     str_join [CHR 0x0A] (map indent_line (enumerate 0 (str_split CHR 0x0A message)))"

text \<open>Lines 448-453; \<open>c0\<close> is \<^verbatim>\<open>colors[0]\<close>.\<close>

definition file_color :: "string \<Rightarrow> string list" where
  "file_color c0 =
     (if charAt c0 3 = ''m'' then [background_cyan]
      else [foreground_white, ESC # ''[4'' @ charAt c0 3 @ ''m''])"

text \<open>The parameter \<^verbatim>\<open>relativePath?: string | true\<close> of \<^verbatim>\<open>custom\<close>.\<close>

datatype label = NoLabel | Continue | Label string

text \<open>
  Lines 456-475: the window. The result is \<^verbatim>\<open>shouldMiddlePrefix\<close> and the runtime with
  the footer and the header printed and \<^verbatim>\<open>relativePathBeingDisplayed\<close> set.
\<close>

definition custom_window :: "label \<Rightarrow> Runtime \<Rightarrow> bool \<times> Runtime" where
  "custom_window rp w =
     (if (rp = Continue \<and> length (relativePathBeingDisplayed w) > 0)
         \<or> Label (relativePathBeingDisplayed w) = rp
      then (True, w)
      else
        (let w1 = (if length (relativePathBeingDisplayed w) > 0
                   then (console_print Out footerPrefix w)\<lparr>relativePathBeingDisplayed := []\<rparr>
                   else w)
         in (case rp of
               Label s \<Rightarrow>
                 (if s \<noteq> []
                  then (True, console_print Out (headerPrefix @ s) (w1\<lparr>relativePathBeingDisplayed := s\<rparr>))
                  else (False, w1))
             | _ \<Rightarrow> (False, w1))))"

text \<open>
  \<^verbatim>\<open>custom\<close> (lines 392-481). \<open>None\<close> when the loop of lines 425-430 does not end. With no
  colour, \<^verbatim>\<open>colors[0].charAt\<close> in line 448 is a \<^verbatim>\<open>TypeError\<close>.
\<close>

definition custom ::
  "host \<Rightarrow> jsval \<Rightarrow> string list \<Rightarrow> nat \<Rightarrow> bool \<Rightarrow> label \<Rightarrow> Runtime \<Rightarrow> (jsval completion \<times> Runtime) option" where
  "custom h message colors getLine isError rp w =
     (case parse_error w message isError of
        (message1, isError1) \<Rightarrow>
          (case parse_message h message1 of
             Throw x \<Rightarrow> Some (Throw x, w)
           | Normal message2 \<Rightarrow>
               (case recolor (concat colors) message2 of
                  None \<Rightarrow> None
                | Some message3 \<Rightarrow>
                    (case colors of
                       [] \<Rightarrow> Some (Throw TypeError, w)
                     | c0 # cs \<Rightarrow>
                         (let message4 = indent_lines message3;
                              fileColor = file_color c0;
                              file = replaceAll (getFileCode h InCustom (getLine + 1))
                                       special_normal (concat fileColor)
                          in (case custom_window rp w of
                                (shouldMiddlePrefix, w1) \<Rightarrow>
                                  Some (Normal JNull,
                                    console_print (if isError1 then Err else Out)
                                      (colorString (if shouldMiddlePrefix then middlePrefix else []) colors
                                         [special_normal]
                                       @ colorString file fileColor [special_normal] @ '' ''
                                       @ colorString message4 colors [special_normal])
                                      w1)))))))"

text \<open>
  The static level functions \<^verbatim>\<open>output\<close> (lines 18-51), which \<^verbatim>\<open>Log.debug\<close>, \<^verbatim>\<open>Log.info\<close>,
  \<^verbatim>\<open>Log.warn\<close> and \<^verbatim>\<open>Log.error\<close> are: \<^verbatim>\<open>usePrevLog || undefined\<close> is \<^verbatim>\<open>true\<close> or
  \<^verbatim>\<open>undefined\<close>.
\<close>

definition output_debug :: "host \<Rightarrow> jsval \<Rightarrow> bool \<Rightarrow> Runtime \<Rightarrow> (jsval completion \<times> Runtime) option" where
  "output_debug h message usePrevLog w =
     custom h message [foreground_cyan] 2 False (if usePrevLog then Continue else NoLabel) w"

definition output_info :: "host \<Rightarrow> jsval \<Rightarrow> bool \<Rightarrow> Runtime \<Rightarrow> (jsval completion \<times> Runtime) option" where
  "output_info h message usePrevLog w =
     custom h message [foreground_green] 2 False (if usePrevLog then Continue else NoLabel) w"

definition output_warn :: "host \<Rightarrow> jsval \<Rightarrow> bool \<Rightarrow> Runtime \<Rightarrow> (jsval completion \<times> Runtime) option" where
  "output_warn h message usePrevLog w =
     custom h message [foreground_yellow] 2 False (if usePrevLog then Continue else NoLabel) w"

definition output_error :: "host \<Rightarrow> jsval \<Rightarrow> bool \<Rightarrow> Runtime \<Rightarrow> (jsval completion \<times> Runtime) option" where
  "output_error h message usePrevLog w =
     custom h message [foreground_red] 2 True (if usePrevLog then Continue else NoLabel) w"

section \<open>The log facade\<close>

text \<open>The getter \<^verbatim>\<open>relativePathString\<close> (lines 361-363), with \<^verbatim>\<open>/\<close> for \<^verbatim>\<open>Path.sep\<close>.\<close>

definition relativePathString :: "Log \<Rightarrow> string" where
  "relativePathString l = str_join ''/'' (relativePath l)"

text \<open>\<^verbatim>\<open>valuesLog\<close> (lines 234-246).\<close>

definition valuesLog :: "host \<Rightarrow> Log \<Rightarrow> Runtime \<Rightarrow> Runtime" where
  "valuesLog h l w =
     (let color = foreground_magenta;
          tag = colorString (''['' @ relativePathString l @ '']'') [foreground_cyan] [special_normal];
          w1 = console_print Out (color @ middlePrefix @ ''[VALUES] '' @ tag) w;
          w2 = foldl (\<lambda>w line. console_print Out (color @ middlePrefix @ line) w) w1
                 (str_split CHR 0x0A (inspect h None (JPlain (logValues l))))
      in console_print Out (color @ footerPrefix @ ''[END OF VALUES] '' @ tag) w2)"

text \<open>The four levels, \<^verbatim>\<open>keyof typeof output\<close>, and \<^verbatim>\<open>type.toUpperCase()\<close>.\<close>

datatype level = LDebug | LInfo | LWarn | LError

fun toUpperCase :: "level \<Rightarrow> string" where
  "toUpperCase LDebug = ''DEBUG''"
| "toUpperCase LInfo = ''INFO''"
| "toUpperCase LWarn = ''WARN''"
| "toUpperCase LError = ''ERROR''"

text \<open>
  Lines 319-321: \<^verbatim>\<open>content?.replace && args.forEach((v) => content = content.replace("%s", v))\<close>.
  A string has the method; on a plain object a truthy property \<^verbatim>\<open>replace\<close> is data, and
  calling it is a \<^verbatim>\<open>TypeError\<close>; the other values are taken to have no such property.
\<close>

definition substitute :: "jsval \<Rightarrow> string list \<Rightarrow> jsval completion" where
  "substitute message args =
     (case message of
        JString s \<Rightarrow> Normal (JString (foldl (\<lambda>content v. js_replace content ''%s'' v) s args))
      | JPlain kvs \<Rightarrow>
          (case map_of kvs ''replace'' of
             None \<Rightarrow> Normal message
           | Some v \<Rightarrow> if js_truthy v \<and> args \<noteq> [] then Throw TypeError else Normal message)
      | _ \<Rightarrow> Normal message)"

text \<open>Lines 339-343: the text for the file; the arrow is U+21A6 in UTF-8.\<close>

definition arrow :: string where
  "arrow = [CHR 0xE2, CHR 0x86, CHR 0xA6]"

definition log_text :: "host \<Rightarrow> level \<Rightarrow> string \<Rightarrow> string \<Rightarrow> Log \<Rightarrow> string" where
  "log_text h type file content l =
     ''['' @ timestamp h @ ''] ['' @ toUpperCase type @ ''] '' @ file @ '' '' @ content @ [CHR 0x0A]
     @ (if type = LError
        then ''['' @ timestamp h @ ''] '' @ arrow @ '' '' @ inspect h None (JPlain (logValues l)) @ [CHR 0x0A]
        else [])"

text \<open>
  The \<^verbatim>\<open>try\<close> block of \<^verbatim>\<open>createNewLog\<close> (lines 313-346), with \<^verbatim>\<open>writeLog\<close> awaited. \<open>None\<close>
  when \<^verbatim>\<open>custom\<close> does not return.
\<close>

definition createNewLog_save ::
  "host \<Rightarrow> io \<Rightarrow> level \<Rightarrow> string \<Rightarrow> jsval \<Rightarrow> Log \<Rightarrow> Runtime \<Rightarrow> unit completion \<times> Log \<times> Runtime" where
  "createNewLog_save h e type file content l w =
     (if shouldSaveConsole l then
        (case ToString content of
           None \<Rightarrow> (Throw TypeError, l, w)
         | Some c \<Rightarrow>
             (case writeLog e (log_text h type file c l) l w of
                (Threw x, l', w') \<Rightarrow> (Throw x, l', w')
              | (st, l', w') \<Rightarrow> (Normal (), l', w')))
      else (Normal (), l, w))"

definition createNewLog_try ::
  "host \<Rightarrow> io \<Rightarrow> level \<Rightarrow> jsval \<Rightarrow> string list \<Rightarrow> string list \<Rightarrow> nat \<Rightarrow> Log \<Rightarrow> Runtime
   \<Rightarrow> (unit completion \<times> Log \<times> Runtime) option" where
  "createNewLog_try h e type message args colors getLine l w =
     (let file = getFileCode h InCreateNewLog (getLine + 1);
          relativePath = relativePathString l
      in (case substitute message args of
            Throw x \<Rightarrow> Some (Throw x, l, w)
          | Normal content \<Rightarrow>
              (if shouldConsoleLog l then
                 (case custom h content colors (getLine + 1) (type = LError) (Label relativePath) w of
                    None \<Rightarrow> None
                  | Some (Throw x, w1) \<Rightarrow> Some (Throw x, l, w1)
                  | Some (Normal v, w1) \<Rightarrow>
                      Some (createNewLog_save h e type file content l
                              (if type = LError then valuesLog h l w1 else w1)))
               else Some (createNewLog_save h e type file content l w))))"

text \<open>What \<^verbatim>\<open>console.error(e)\<close> prints for a caught error.\<close>

fun error_text :: "error \<Rightarrow> string" where
  "error_text TypeError = ''TypeError''"
| "error_text BadResource = ''BadResource''"
| "error_text MkdirFailed = ''mkdir failed''"
| "error_text OpenFailed = ''open failed''"
| "error_text WriteFailed = ''write failed''"

text \<open>\<^verbatim>\<open>createNewLog\<close> (lines 305-351): the \<^verbatim>\<open>try\<close> block, the \<^verbatim>\<open>catch\<close>, and \<^verbatim>\<open>return null\<close>.\<close>

definition createNewLog ::
  "host \<Rightarrow> io \<Rightarrow> level \<Rightarrow> jsval \<Rightarrow> string list \<Rightarrow> string list \<Rightarrow> nat \<Rightarrow> Log \<Rightarrow> Runtime
   \<Rightarrow> (jsval completion \<times> Log \<times> Runtime) option" where
  "createNewLog h e type message args colors getLine l w =
     (case createNewLog_try h e type message args colors getLine l w of
        None \<Rightarrow> None
      | Some (Throw x, l', w') \<Rightarrow> Some (Normal JNull, l', console_print Err (error_text x) w')
      | Some (Normal u, l', w') \<Rightarrow> Some (Normal JNull, l', w'))"

text \<open>The level methods of an instance (lines 198-229).\<close>

definition Log_debug :: "host \<Rightarrow> io \<Rightarrow> jsval \<Rightarrow> string list \<Rightarrow> Log \<Rightarrow> Runtime \<Rightarrow> (jsval completion \<times> Log \<times> Runtime) option" where
  "Log_debug h e message args l w = createNewLog h e LDebug message args [foreground_cyan] 2 l w"

definition Log_info :: "host \<Rightarrow> io \<Rightarrow> jsval \<Rightarrow> string list \<Rightarrow> Log \<Rightarrow> Runtime \<Rightarrow> (jsval completion \<times> Log \<times> Runtime) option" where
  "Log_info h e message args l w = createNewLog h e LInfo message args [foreground_green] 2 l w"

definition Log_warn :: "host \<Rightarrow> io \<Rightarrow> jsval \<Rightarrow> string list \<Rightarrow> Log \<Rightarrow> Runtime \<Rightarrow> (jsval completion \<times> Log \<times> Runtime) option" where
  "Log_warn h e message args l w = createNewLog h e LWarn message args [foreground_yellow] 2 l w"

definition Log_error :: "host \<Rightarrow> io \<Rightarrow> jsval \<Rightarrow> string list \<Rightarrow> Log \<Rightarrow> Runtime \<Rightarrow> (jsval completion \<times> Log \<times> Runtime) option" where
  "Log_error h e message args l w = createNewLog h e LError message args [foreground_red] 2 l w"

text \<open>
  The setter of \<^verbatim>\<open>values\<close> (lines 146-150) assigns key by key, \<open>data\<close> being listed in
  the order of \<^verbatim>\<open>for ... in\<close>. An assignment to a key the object has keeps the key's
  place. A new key goes to the end, unless it is an array index (a decimal numeral
  below \<open>2^32 - 1\<close> with no leading zero): JavaScript lists those first, in ascending
  order.
\<close>

definition array_index :: "string \<Rightarrow> nat option" where
  "array_index k =
     (if k \<noteq> [] \<and> list_all (\<lambda>c. c \<in> set ''0123456789'') k \<and> (hd k \<noteq> CHR ''0'' \<or> length k = 1)
      then (let n = foldl (\<lambda>a c. 10 * a + (of_char c - 48)) 0 k
            in if n < 4294967295 then Some n else None)
      else None)"

fun insert_index :: "nat \<Rightarrow> string \<Rightarrow> jsval \<Rightarrow> (string \<times> jsval) list \<Rightarrow> (string \<times> jsval) list" where
  "insert_index n k v [] = [(k, v)]"
| "insert_index n k v ((k', v') # kvs) =
     (case array_index k' of
        None \<Rightarrow> (k, v) # (k', v') # kvs
      | Some m \<Rightarrow> if m < n then (k', v') # insert_index n k v kvs else (k, v) # (k', v') # kvs)"

definition assign :: "string \<Rightarrow> jsval \<Rightarrow> (string \<times> jsval) list \<Rightarrow> (string \<times> jsval) list" where
  "assign k v kvs =
     (if map_of kvs k \<noteq> None then map (\<lambda>kv. if fst kv = k then (k, v) else kv) kvs
      else (case array_index k of
              None \<Rightarrow> kvs @ [(k, v)]
            | Some n \<Rightarrow> insert_index n k v kvs))"

definition set_values :: "(string \<times> jsval) list \<Rightarrow> Log \<Rightarrow> Log" where
  "set_values data l = l\<lparr>logValues := foldl (\<lambda>vs kv. assign (fst kv) (snd kv) vs) (logValues l) data\<rparr>"

text \<open>
  The constructor (lines 169-196). \<^verbatim>\<open>folders.pop()\<close> is the last piece of the path, which
  \<^verbatim>\<open>split\<close> always gives. \<open>date\<close> is today's folder name.
\<close>

record LogOptions =
  opt_shouldConsoleLog :: "bool option"
  opt_shouldSaveConsole :: "bool option"
  opt_initValues :: "(string \<times> jsval) list option"
  opt_fileTimeout :: "int option"

definition option_or :: "'a option \<Rightarrow> 'a \<Rightarrow> 'a" where
  "option_or x d = (case x of None \<Rightarrow> d | Some v \<Rightarrow> v)"

definition Log_fields :: "string \<Rightarrow> string \<Rightarrow> LogOptions option \<Rightarrow> Log" where
  "Log_fields date filePath options =
     (let folders = str_split CHR ''/'' filePath;
          fileName = last folders;
          file = (if endsWith fileName ''.log'' then fileName else fileName @ ''.log'')
      in set_values (option_or (Option.bind options opt_initValues) [])
           \<lparr>logFile = None, logFileTimeout = None, logFileTaken = False,
            logFileDate = date, logValues = [],
            shouldConsoleLog = option_or (Option.bind options opt_shouldConsoleLog) True,
            shouldSaveConsole = option_or (Option.bind options opt_shouldSaveConsole) True,
            fileTimeout = option_or (Option.bind options opt_fileTimeout) 5000,
            relativePath = butlast folders @ [file],
            logDataQueue = []\<rparr>)"

definition new_Log ::
  "host \<Rightarrow> string \<Rightarrow> string \<Rightarrow> LogOptions option \<Rightarrow> Runtime \<Rightarrow> (Log completion \<times> Runtime) option" where
  "new_Log h date filePath options w =
     (if length filePath = 0 then
        (let filePath1 = ''other/'' @ randomUUID h
         in (case custom h
                   (JString (''Output class Log: filePath is empty, defaulting to '' @ filePath1))
                   [foreground_yellow] 2 False NoLabel w of
               None \<Rightarrow> None
             | Some (Throw x, w1) \<Rightarrow> Some (Throw x, w1)
             | Some (Normal v, w1) \<Rightarrow> Some (Normal (Log_fields date filePath1 options), w1)))
      else Some (Normal (Log_fields date filePath options), w))"

section \<open>Time, and calls that overlap\<close>

text \<open>
  A pending timer fires: it leaves the table and its callback \<^verbatim>\<open>closeLogs\<close> runs.
  \<open>elapse ms\<close> lets \<open>ms\<close> milliseconds pass with no call: the timers that are due by then
  fire, the earliest first.
\<close>

definition fire :: "nat \<Rightarrow> Log \<Rightarrow> Runtime \<Rightarrow> Log \<times> Runtime" where
  "fire t l w =
     (if t \<in> fst ` set (timers w)
      then closeLogs l (w\<lparr>timers := filter (\<lambda>(i, due). i \<noteq> t) (timers w)\<rparr>)
      else (l, w))"

fun fire_all :: "nat list \<Rightarrow> Log \<Rightarrow> Runtime \<Rightarrow> Log \<times> Runtime" where
  "fire_all [] l w = (l, w)"
| "fire_all (t # ts) l w = (case fire t l w of (l', w') \<Rightarrow> fire_all ts l' w')"

definition elapse :: "nat \<Rightarrow> Log \<Rightarrow> Runtime \<Rightarrow> Log \<times> Runtime" where
  "elapse ms l w =
     (let t = clock w + ms;
          due = map fst (filter (\<lambda>(i, d). d \<le> t) (sort_key snd (timers w)))
      in fire_all due l (w\<lparr>clock := t\<rparr>))"

text \<open>A caller that awaits every call of \<^verbatim>\<open>writeLog\<close> before the next.\<close>

fun writeLogs :: "(io \<times> bytes) list \<Rightarrow> Log \<Rightarrow> Runtime \<Rightarrow> Log \<times> Runtime" where
  "writeLogs [] l w = (l, w)"
| "writeLogs ((e, d) # cs) l w = (case writeLog e d l w of (st, l', w') \<Rightarrow> writeLogs cs l' w')"

text \<open>
  One instance on the event loop, with the calls of \<^verbatim>\<open>writeLog\<close> made so far: a call that
  is not awaited stays suspended while other calls start and run. The events are a new
  call, the settling of the operation a suspended call waits for, a timer firing, a call
  of the public \<^verbatim>\<open>closeLogs\<close>, and an assignment to one of the public fields
  \<^verbatim>\<open>fileTimeout\<close>, \<^verbatim>\<open>shouldConsoleLog\<close>, \<^verbatim>\<open>shouldSaveConsole\<close> and \<^verbatim>\<open>values\<close>. A timer may
  fire at any moment, so every schedule of the real clock is among the runs.
\<close>

record sys =
  inst :: Log
  rt :: Runtime
  calls :: "status list"

datatype event =
    Call string bytes
  | Settle nat io_result
  | Timer nat
  | Close
  | SetFileTimeout int
  | SetShouldConsoleLog bool
  | SetShouldSaveConsole bool
  | SetValues "(string \<times> jsval) list"

fun sys_step :: "event \<Rightarrow> sys \<Rightarrow> sys" where
  "sys_step (Call date data) s =
     (case writeLog_begin date data (inst s) (rt s) of
        (st, l, w) \<Rightarrow> \<lparr>inst = l, rt = w, calls = calls s @ [st]\<rparr>)"
| "sys_step (Settle n r) s =
     (if n < length (calls s) then
        (case calls s ! n of
           Suspended p \<Rightarrow>
             (case writeLog_resume r p (inst s) (rt s) of
                (st, l, w) \<Rightarrow> \<lparr>inst = l, rt = w, calls = (calls s)[n := st]\<rparr>)
         | _ \<Rightarrow> s)
      else s)"
| "sys_step (Timer t) s =
     (case fire t (inst s) (rt s) of (l, w) \<Rightarrow> \<lparr>inst = l, rt = w, calls = calls s\<rparr>)"
| "sys_step Close s =
     (case closeLogs (inst s) (rt s) of (l, w) \<Rightarrow> \<lparr>inst = l, rt = w, calls = calls s\<rparr>)"
| "sys_step (SetFileTimeout n) s =
     \<lparr>inst = (inst s)\<lparr>fileTimeout := n\<rparr>, rt = rt s, calls = calls s\<rparr>"
| "sys_step (SetShouldConsoleLog b) s =
     \<lparr>inst = (inst s)\<lparr>shouldConsoleLog := b\<rparr>, rt = rt s, calls = calls s\<rparr>"
| "sys_step (SetShouldSaveConsole b) s =
     \<lparr>inst = (inst s)\<lparr>shouldSaveConsole := b\<rparr>, rt = rt s, calls = calls s\<rparr>"
| "sys_step (SetValues data) s =
     \<lparr>inst = set_values data (inst s), rt = rt s, calls = calls s\<rparr>"

definition sys_run :: "event list \<Rightarrow> sys \<Rightarrow> sys" where
  "sys_run evs s = foldl (\<lambda>s ev. sys_step ev s) s evs"

section \<open>Properties of the states\<close>

text \<open>
  An instance at rest: no file, no timer, no flush claimed, nothing queued. All
  operations of the environment succeed during a call.
\<close>

definition idle :: "Log \<Rightarrow> bool" where
  "idle l = (logFile l = None \<and> logFileTimeout l = None \<and> \<not> logFileTaken l \<and> logDataQueue l = [])"

definition ioOk :: "io \<Rightarrow> bool" where
  "ioOk e = (mkdirOk e \<and> openOk e \<and> (\<forall>i. writeOk e i))"

text \<open>
  The file a call made on day \<open>today e\<close> writes to, the buffers of a list of calls that
  go to the file \<open>p\<close>, in the order of the calls, and what a file holds.
\<close>

definition target :: "io \<Rightarrow> Log \<Rightarrow> Runtime \<Rightarrow> path" where
  "target e l w = absolutePath (l\<lparr>logFileDate := today e\<rparr>) w"

definition submitted :: "path \<Rightarrow> (io \<times> bytes) list \<Rightarrow> Log \<Rightarrow> Runtime \<Rightarrow> bytes list" where
  "submitted p cs l w = map snd (filter (\<lambda>c. target (fst c) l w = p) cs)"

definition file_content :: "Runtime \<Rightarrow> path \<Rightarrow> bytes" where
  "file_content w p = (case files w p of None \<Rightarrow> [] | Some c \<Rightarrow> c)"

text \<open>
  The instance and the open resources agree: the file the instance holds is open on the
  path of the stored date (and its id is one that \<^verbatim>\<open>Deno.open\<close> has given out), no
  other resource is open, and no flush is claimed.
\<close>

definition tidy :: "Log \<Rightarrow> Runtime \<Rightarrow> bool" where
  "tidy l w =
     ((\<forall>f. logFile l = Some f \<longrightarrow> openFiles w f = Some (absolutePath l w) \<and> f < nextRid w)
      \<and> (\<forall>f p. openFiles w f = Some p \<longrightarrow> logFile l = Some f)
      \<and> \<not> logFileTaken l)"

text \<open>
  What holds of an awaited call while it waits for \<^verbatim>\<open>Deno.mkdir\<close> or \<^verbatim>\<open>Deno.open\<close>: it will
  open the path of the stored date, and the instance holds no file.
\<close>

fun waiting :: "status \<Rightarrow> Log \<Rightarrow> Runtime \<Rightarrow> bool" where
  "waiting (Suspended (AwaitMkdir p)) l w = (p = absolutePath l w \<and> logFile l = None)"
| "waiting (Suspended (AwaitOpen p)) l w = (p = absolutePath l w \<and> logFile l = None)"
| "waiting st l w = True"

text \<open>The part of the runtime that the console functions do not touch.\<close>

definition disk :: "Runtime \<Rightarrow> path \<times> (path \<rightharpoonup> bytes) \<times> (nat \<rightharpoonup> path) \<times> nat \<times> (nat \<times> nat) list \<times> nat \<times> nat" where
  "disk w = (cwd w, files w, openFiles w, nextRid w, timers w, nextTimerId w, clock w)"

text \<open>The number of places in a string where \<^verbatim>\<open>terminalColor.special.normal\<close> starts.\<close>

fun occurrences :: "string \<Rightarrow> nat" where
  "occurrences [] = 0"
| "occurrences (x # xs) = (if starts_with (x # xs) special_normal then 1 else 0) + occurrences xs"

section \<open>Sample inputs\<close>

definition host0 :: host where
  "host0 = \<lparr>inspect = (\<lambda>depth v. ''{ some_value: test }''),
            frame = (\<lambda>s n. Some (''src/main.ts'', ''7'')),
            timestamp = ''9:05:00 AM'',
            randomUUID = ''0000''\<rparr>"

definition io0 :: io where
  "io0 = \<lparr>today = ''2024-01-01'', mkdirOk = True, openOk = True, writeOk = (\<lambda>i. True)\<rparr>"

definition Runtime0 :: Runtime where
  "Runtime0 = \<lparr>cwd = [''home'', ''app''], files = Map.empty, openFiles = Map.empty, nextRid = 3,
               timers = [], nextTimerId = 1, clock = 0, console = [],
               relativePathBeingDisplayed = []\<rparr>"

definition options0 :: "int \<Rightarrow> LogOptions" where
  "options0 ms = \<lparr>opt_shouldConsoleLog = Some False, opt_shouldSaveConsole = None,
                  opt_initValues = Some [(''some_value'', JString ''test'')],
                  opt_fileTimeout = Some ms\<rparr>"

definition Log0 :: "int \<Rightarrow> Log" where
  "Log0 ms = Log_fields ''2024-01-01'' ''test'' (Some (options0 ms))"

section \<open>The log writer: one awaited call\<close>

lemma closeLogs_None: "logFile l = None \<Longrightarrow> closeLogs l w = (l, w)"
  by (simp add: closeLogs_def)

lemma writeLog_resume_queue:
  "writeLog_resume r p l w = (st, l', w') \<Longrightarrow> st \<noteq> Returned \<Longrightarrow> logDataQueue l' = logDataQueue l"
  by (cases r; cases p)
     (auto simp: writeLog_loop_def Let_def closeLogs_def Deno_open_def setTimeout_def
           split: if_splits option.splits prod.splits)

lemma writeLog_run_queue:
  "writeLog_run e (st, l, w) = (Threw x, l', w') \<Longrightarrow> logDataQueue l' = logDataQueue l"
proof (induction e "(st, l, w)" arbitrary: st l w rule: writeLog_run.induct)
  case (1 e p l w)
  obtain st2 l2 w2 where r: "writeLog_resume (answer e p) p l w = (st2, l2, w2)"
    by (cases "writeLog_resume (answer e p) p l w")
  have run: "writeLog_run e (st2, l2, w2) = (Threw x, l', w')"
    using "1.prems" r by simp
  then have "st2 \<noteq> Returned" by auto
  then have "logDataQueue l2 = logDataQueue l"
    using writeLog_resume_queue [OF r] by simp
  moreover have "logDataQueue l' = logDataQueue l2"
    using "1.hyps" [OF r run] by simp
  ultimately show ?case by simp
next
  case (2 e l w)
  then show ?case by simp
next
  case (3 e x l w)
  then show ?case by simp
qed

lemma writeLog_begin_queue:
  "writeLog_begin date d l w = (st, l', w') \<Longrightarrow> st \<noteq> Returned \<Longrightarrow> logDataQueue l' = logDataQueue l @ [d]"
  by (auto simp: writeLog_begin_def writeLog_loop_def Let_def closeLogs_def
           split: if_splits option.splits prod.splits)

lemma writeLog_run_not_Suspended: "fst (writeLog_run e x) \<noteq> Suspended p"
  by (induction e x rule: writeLog_run.induct) simp_all

lemma append_file_twice:
  "append_file p d2 (append_file p d1 w) = append_file p (d1 @ d2) w"
  by (simp add: append_file_def split: option.splits)

lemma foldl_append_file:
  "foldl (\<lambda>w d. append_file p d w) (append_file p d0 w) ds = append_file p (d0 @ concat ds) w"
  by (induction ds arbitrary: d0) (simp_all add: append_file_twice)

lemma openFiles_append_file: "openFiles (append_file p d w) = openFiles w"
  by (simp add: append_file_def)

lemma writeLog_loop_step:
  "logFile l = Some f \<Longrightarrow> openFiles w f = Some p \<Longrightarrow> i < length (logDataQueue l) \<Longrightarrow>
   writeLog_loop i l w = (Suspended (AwaitWrite i p (logDataQueue l ! i)), l, w)"
  by (simp add: writeLog_loop_def)

text \<open>The loop on its own, when every write succeeds: the queue goes to the file in order.\<close>

lemma run_loop_all_ok:
  assumes f: "logFile l = Some f" and ok: "\<forall>j < length (logDataQueue l). writeOk e j"
  shows "n = length (logDataQueue l) - i \<Longrightarrow> i \<le> length (logDataQueue l) \<Longrightarrow>
         openFiles w f = Some p \<Longrightarrow>
         writeLog_run e (writeLog_loop i l w) =
         writeLog_run e (writeLog_loop (length (logDataQueue l)) l
           (foldl (\<lambda>w d. append_file p d w) w (drop i (logDataQueue l))))"
proof (induction n arbitrary: i w)
  case 0
  then show ?case by simp
next
  case (Suc n)
  then have lt: "i < length (logDataQueue l)" by simp
  have d: "drop i (logDataQueue l) = logDataQueue l ! i # drop (Suc i) (logDataQueue l)"
    using lt by (simp add: Cons_nth_drop_Suc)
  have "writeLog_run e (writeLog_loop i l w)
        = writeLog_run e (writeLog_loop (Suc i) l (append_file p (logDataQueue l ! i) w))"
    using lt ok by (simp add: writeLog_loop_step [OF f Suc.prems(3) lt])
  also have "\<dots> = writeLog_run e (writeLog_loop (length (logDataQueue l)) l
           (foldl (\<lambda>w d. append_file p d w) (append_file p (logDataQueue l ! i) w)
              (drop (Suc i) (logDataQueue l))))"
    using Suc.prems lt by (intro Suc.IH) (simp_all add: openFiles_append_file)
  finally show ?case by (simp add: d)
qed

lemma absolutePath_cong:
  "logFileDate l' = logFileDate l \<Longrightarrow> relativePath l' = relativePath l \<Longrightarrow> cwd w' = cwd w \<Longrightarrow>
   absolutePath l' w' = absolutePath l w"
  by (simp add: absolutePath_def rootFolderToLogs_def)

text \<open>A call on an instance at rest with \<open>fileTimeout = 0\<close>, all operations succeeding.\<close>

lemma writeLog_idle_0:
  assumes "fileTimeout l = 0" "idle l" "ioOk e"
  shows "writeLog e d l w =
    (Returned, l\<lparr>logFileDate := today e\<rparr>,
     w\<lparr>openFiles := (openFiles w)(nextRid w := None),
       files := (files w)(target e l w \<mapsto> file_content w (target e l w) @ d),
       nextRid := Suc (nextRid w)\<rparr>)"
  using assms
  apply (simp add: writeLog_def writeLog_begin_def idle_def ioOk_def closeLogs_None Let_def target_def)
  apply (simp add: Deno_open_def writeLog_loop_def Let_def truthy_id_def closeLogs_def
      FsFile_close_def append_file_def absolutePath_def rootFolderToLogs_def file_content_def
      split: option.splits)
  done

text \<open>The same with a timeout: the file stays open and one timer is pending.\<close>

lemma writeLog_idle_timer:
  assumes "fileTimeout l \<noteq> 0" "idle l" "ioOk e" "nextTimerId w \<noteq> 0"
  shows "writeLog e d l w =
    (Returned, l\<lparr>logFileDate := today e, logFile := Some (nextRid w),
                logFileTimeout := Some (nextTimerId w)\<rparr>,
     w\<lparr>openFiles := (openFiles w)(nextRid w \<mapsto> target e l w),
       files := (files w)(target e l w \<mapsto> file_content w (target e l w) @ d),
       nextRid := Suc (nextRid w),
       timers := timers w @ [(nextTimerId w, clock w + timer_delay (fileTimeout l))],
       nextTimerId := Suc (nextTimerId w)\<rparr>)"
  using assms
  apply (simp add: writeLog_def writeLog_begin_def idle_def ioOk_def closeLogs_None Let_def target_def)
  apply (simp add: Deno_open_def setTimeout_def writeLog_loop_def Let_def truthy_id_def
      append_file_def absolutePath_def rootFolderToLogs_def file_content_def
      split: option.splits)
  done

text \<open>
  A call that finds the file open for today's date, with a timer pending: the buffer is
  written through the open file; no timer is set or cleared.
\<close>

lemma writeLog_reuse:
  assumes "logFile l = Some f" "openFiles w f = Some p" "logFileDate l = today e"
    "\<not> logFileTaken l" "logDataQueue l = []" "truthy_id (logFileTimeout l)" "writeOk e 0"
  shows "writeLog e d l w = (Returned, l, append_file p d w)"
  using assms
  by (simp add: writeLog_def writeLog_begin_def Let_def writeLog_loop_def)

text \<open>\<^verbatim>\<open>writeLog\<close> awaited, read from top to bottom down to the loop.\<close>

lemma writeLog_straight:
  "writeLog e d l w =
     (let l1 = l\<lparr>logDataQueue := logDataQueue l @ [d]\<rparr>
      in if logFileTaken l1 then (Returned, l1, w)
         else if logFile l1 = None \<or> logFileDate l1 \<noteq> today e then
           (case closeLogs (l1\<lparr>logFileDate := today e\<rparr>) w of
              (l2, w2) \<Rightarrow>
                if \<not> mkdirOk e then (Threw MkdirFailed, l2, w2)
                else if \<not> openOk e then (Threw OpenFailed, l2, w2)
                else (case Deno_open (absolutePath l2 w2) w2 of
                        (f, w3) \<Rightarrow>
                          if fileTimeout l2 \<noteq> 0
                          then (case setTimeout (fileTimeout l2) w3 of
                                  (t, w4) \<Rightarrow>
                                    writeLog_run e
                                      (writeLog_loop 0 (l2\<lparr>logFile := Some f, logFileTimeout := Some t\<rparr>) w4))
                          else writeLog_run e
                                 (writeLog_loop 0 (l2\<lparr>logFile := Some f, logFileTimeout := None\<rparr>) w3)))
         else writeLog_run e (writeLog_loop 0 l1 w))"
  by (simp add: writeLog_def writeLog_begin_def Let_def split: prod.splits)

lemma closeLogs_frame:
  "closeLogs l w = (l', w') \<Longrightarrow>
   files w' = files w \<and> cwd w' = cwd w \<and> nextRid w' = nextRid w \<and> logFile l' = None
   \<and> logDataQueue l' = logDataQueue l \<and> logFileDate l' = logFileDate l
   \<and> relativePath l' = relativePath l \<and> fileTimeout l' = fileTimeout l"
  by (auto simp: closeLogs_def FsFile_close_def clearTimeout_def split: option.splits if_splits)

lemma files_append_file:
  "files (append_file p d w) = (files w)(p \<mapsto> file_content w p @ d)"
  by (simp add: append_file_def file_content_def split: option.splits)

text \<open>The loop from its start, every write succeeding: the whole queue goes to the file.\<close>

lemma run_loop_flushes:
  assumes f: "logFile l = Some f" and o: "openFiles w f = Some p"
    and ok: "\<forall>j. writeOk e j" and ne: "logDataQueue l \<noteq> []"
  shows "\<exists>l' w'. writeLog_run e (writeLog_loop 0 l w) = (Returned, l', w')
     \<and> logDataQueue l' = []
     \<and> files w' = (files w)(p \<mapsto> file_content w p @ concat (logDataQueue l))"
proof -
  obtain d0 ds where q: "logDataQueue l = d0 # ds"
    using ne by (cases "logDataQueue l") simp_all
  let ?W = "append_file p (concat (logDataQueue l)) w"
  have "foldl (\<lambda>w d. append_file p d w) w (logDataQueue l) = ?W"
    using foldl_append_file [of p d0 w ds] by (simp add: q)
  then have run: "writeLog_run e (writeLog_loop 0 l w)
      = writeLog_run e (writeLog_loop (length (logDataQueue l)) l ?W)"
    using run_loop_all_ok [OF f, of e "length (logDataQueue l)" 0 w p] ok o by simp
  let ?l1 = "l\<lparr>logDataQueue := [], logFileTaken := False\<rparr>"
  obtain l2 w2 where c: "closeLogs ?l1 ?W = (l2, w2)" by (cases "closeLogs ?l1 ?W")
  have c2: "files w2 = files ?W" "logDataQueue l2 = []"
    using closeLogs_frame [OF c] by simp_all
  have "writeLog_loop (length (logDataQueue l)) l ?W
      = (if \<not> truthy_id (logFileTimeout l) then (Returned, l2, w2) else (Returned, ?l1, ?W))"
    using c by (simp add: writeLog_loop_def Let_def)
  then show ?thesis
    using run c2 by (simp add: files_append_file)
qed

text \<open>
  An awaited call whose operations succeed, on an instance whose file, if it holds one,
  is open on the path of the stored date: the queue, with the buffer of the call at its
  end, goes to today's file.
\<close>

lemma writeLog_flushes:
  assumes h: "case logFile l of None \<Rightarrow> True | Some f \<Rightarrow> openFiles w f = Some (absolutePath l w)"
    and nt: "\<not> logFileTaken l" and ok: "ioOk e"
  shows "\<exists>l' w'. writeLog e d l w = (Returned, l', w')
     \<and> logDataQueue l' = []
     \<and> files w' = (files w)(target e l w \<mapsto>
          file_content w (target e l w) @ concat (logDataQueue l) @ d)"
proof -
  let ?l1 = "l\<lparr>logDataQueue := logDataQueue l @ [d]\<rparr>"
  have wok: "\<forall>j. writeOk e j" using ok by (simp add: ioOk_def)
  show ?thesis
  proof (cases "logFile l = None \<or> logFileDate l \<noteq> today e")
    case False
    then obtain f where f: "logFile l = Some f" and dt: "logFileDate l = today e" by auto
    have o: "openFiles w f = Some (target e l w)"
      using h f dt by (simp add: target_def absolutePath_def)
    have "writeLog e d l w = writeLog_run e (writeLog_loop 0 ?l1 w)"
      using nt f dt by (simp add: writeLog_straight Let_def)
    moreover have "\<exists>l' w'. writeLog_run e (writeLog_loop 0 ?l1 w) = (Returned, l', w')
       \<and> logDataQueue l' = []
       \<and> files w' = (files w)(target e l w \<mapsto> file_content w (target e l w) @ concat (logDataQueue ?l1))"
      by (rule run_loop_flushes [OF _ o wok]) (simp_all add: f)
    ultimately show ?thesis by simp
  next
    case True
    obtain l2 w2 where c: "closeLogs (?l1\<lparr>logFileDate := today e\<rparr>) w = (l2, w2)"
      by (cases "closeLogs (?l1\<lparr>logFileDate := today e\<rparr>) w")
    have c2: "files w2 = files w" "cwd w2 = cwd w" "logFile l2 = None"
      "logDataQueue l2 = logDataQueue l @ [d]" "logFileDate l2 = today e"
      "relativePath l2 = relativePath l"
      using closeLogs_frame [OF c] by simp_all
    have p: "absolutePath l2 w2 = target e l w"
      using c2 by (simp add: target_def absolutePath_def rootFolderToLogs_def)
    let ?P = "target e l w"
    define w3 where "w3 = snd (Deno_open ?P w2)"
    have w3: "Deno_open ?P w2 = (nextRid w2, w3)" "openFiles w3 (nextRid w2) = Some ?P"
      "files w3 = (files w)(?P \<mapsto> file_content w ?P)"
      using c2(1) by (auto simp: w3_def Deno_open_def file_content_def split: option.splits)
    have fc: "file_content w3 ?P = file_content w ?P"
      using w3(3) by (simp add: file_content_def)
    show ?thesis
    proof (cases "fileTimeout l2 = 0")
      case z: True
      let ?l3 = "l2\<lparr>logFile := Some (nextRid w2), logFileTimeout := None\<rparr>"
      have "writeLog e d l w = writeLog_run e (writeLog_loop 0 ?l3 w3)"
        using nt True c ok z w3(1) by (simp add: writeLog_straight Let_def ioOk_def p)
      moreover have "\<exists>l' w'. writeLog_run e (writeLog_loop 0 ?l3 w3) = (Returned, l', w')
         \<and> logDataQueue l' = []
         \<and> files w' = (files w3)(?P \<mapsto> file_content w3 ?P @ concat (logDataQueue ?l3))"
        by (rule run_loop_flushes [OF _ w3(2) wok]) (simp_all add: c2)
      ultimately show ?thesis by (simp add: w3(3) fc c2)
    next
      case nz: False
      define w4 where "w4 = snd (setTimeout (fileTimeout l2) w3)"
      let ?l3 = "l2\<lparr>logFile := Some (nextRid w2), logFileTimeout := Some (nextTimerId w3)\<rparr>"
      have w4: "setTimeout (fileTimeout l2) w3 = (nextTimerId w3, w4)"
        "openFiles w4 = openFiles w3" "files w4 = files w3"
        by (simp_all add: w4_def setTimeout_def)
      have o4: "openFiles w4 (nextRid w2) = Some ?P"
        using w3(2) w4(2) by simp
      have fc4: "file_content w4 ?P = file_content w ?P"
        using w4(3) fc by (simp add: file_content_def)
      have "writeLog e d l w = writeLog_run e (writeLog_loop 0 ?l3 w4)"
        using nt True c ok nz w3(1) w4(1) by (simp add: writeLog_straight Let_def ioOk_def p)
      moreover have "\<exists>l' w'. writeLog_run e (writeLog_loop 0 ?l3 w4) = (Returned, l', w')
         \<and> logDataQueue l' = []
         \<and> files w' = (files w4)(?P \<mapsto> file_content w4 ?P @ concat (logDataQueue ?l3))"
        by (rule run_loop_flushes [OF _ o4 wok]) (simp_all add: c2)
      ultimately show ?thesis by (simp add: w4(3) w3(3) fc4 c2)
    qed
  qed
qed

section \<open>The sample inputs, evaluated\<close>

lemma Log0_fields:
  "Log0 ms = \<lparr>logFile = None, logFileTimeout = None, logFileTaken = False,
              logFileDate = ''2024-01-01'', logValues = [(''some_value'', JString ''test'')],
              shouldConsoleLog = False, shouldSaveConsole = True, fileTimeout = ms,
              relativePath = [''test.log''], logDataQueue = []\<rparr>"
  by (simp add: Log0_def Log_fields_def options0_def option_or_def set_values_def endsWith_def
      assign_def array_index_def)

lemma idle_Log_fields: "idle (Log_fields date filePath options)"
  by (simp add: Log_fields_def idle_def set_values_def Let_def)

lemma idle_Log0: "idle (Log0 ms)"
  by (simp add: Log0_def idle_Log_fields)

lemma ioOk_io0: "ioOk io0"
  by (simp add: ioOk_def io0_def)

lemma target_io0: "target io0 (Log0 ms) Runtime0 = [''home'', ''app'', ''logs'', ''2024-01-01'', ''test.log'']"
  by (simp add: target_def absolutePath_def rootFolderToLogs_def Path_resolve_def resolve_step_def
      Log0_fields Runtime0_def io0_def)

text \<open>
  Calls that are each awaited before the next, on an instance at rest with
  \<open>fileTimeout = 0\<close>, every operation succeeding: afterwards the instance is at rest
  again, no resource is open that was not open before, no timer has been added, and
  every file holds what it held before followed by the buffers submitted for it, in the
  order of the calls.
\<close>

lemma writeLogs_0:
  assumes "fileTimeout l = 0" "idle l" "\<forall>c \<in> set cs. ioOk (fst c)"
  shows "\<exists>l' w'. writeLogs cs l w = (l', w') \<and> idle l' \<and> fileTimeout l' = 0
          \<and> relativePath l' = relativePath l \<and> cwd w' = cwd w
          \<and> dom (openFiles w') \<subseteq> dom (openFiles w) \<and> timers w' = timers w
          \<and> (\<forall>p. files w' p =
                (if submitted p cs l w = [] then files w p
                 else Some (file_content w p @ concat (submitted p cs l w))))"
  using assms
proof (induction cs arbitrary: l w)
  case Nil
  then show ?case by (simp add: submitted_def)
next
  case (Cons c cs)
  obtain e d where c: "c = (e, d)" by (cases c)
  let ?l1 = "l\<lparr>logFileDate := today e\<rparr>"
  let ?w1 = "w\<lparr>openFiles := (openFiles w)(nextRid w := None),
       files := (files w)(target e l w \<mapsto> file_content w (target e l w) @ d),
       nextRid := Suc (nextRid w)\<rparr>"
  have step: "writeLog e d l w = (Returned, ?l1, ?w1)"
    using Cons.prems c by (intro writeLog_idle_0) simp_all
  have l1: "fileTimeout ?l1 = 0" "idle ?l1" "\<forall>c \<in> set cs. ioOk (fst c)"
    using Cons.prems by (simp_all add: idle_def)
  obtain l' w' where r: "writeLogs cs ?l1 ?w1 = (l', w')" "idle l'" "fileTimeout l' = 0"
      "relativePath l' = relativePath ?l1" "cwd w' = cwd ?w1"
      "dom (openFiles w') \<subseteq> dom (openFiles ?w1)" "timers w' = timers ?w1"
      "\<forall>p. files w' p = (if submitted p cs ?l1 ?w1 = [] then files ?w1 p
                 else Some (file_content ?w1 p @ concat (submitted p cs ?l1 ?w1)))"
    using Cons.IH [OF l1, of ?w1] by blast
  have sub: "submitted p cs ?l1 ?w1 = submitted p cs l w" for p
    by (simp add: submitted_def target_def absolutePath_def rootFolderToLogs_def)
  have subc: "submitted p (c # cs) l w =
      (if target e l w = p then d # submitted p cs l w else submitted p cs l w)" for p
    by (simp add: submitted_def c)
  have f8: "files w' p = (if submitted p cs l w = [] then files ?w1 p
                 else Some (file_content ?w1 p @ concat (submitted p cs l w)))" for p
    using r(8) by (simp only: sub)
  have f1: "files ?w1 p = (if p = target e l w then Some (file_content w p @ d) else files w p)" for p
    by simp
  have c1: "file_content ?w1 p = (if p = target e l w then file_content w p @ d else file_content w p)" for p
    by (simp add: file_content_def)
  have files: "files w' p = (if submitted p (c # cs) l w = [] then files w p
                 else Some (file_content w p @ concat (submitted p (c # cs) l w)))" for p
    by (simp add: f8 f1 c1 subc file_content_def split: option.splits)
  have "dom (openFiles w') \<subseteq> dom (openFiles w)"
    using r(6) by auto
  then show ?case
    using r files by (simp add: c step)
qed

section \<open>Claims about the log writer\<close>

text \<open>
  A call that is awaited, with nothing else running during it, and that fails in
  \<^verbatim>\<open>Deno.mkdir\<close>, in \<^verbatim>\<open>Deno.open\<close> or in a write leaves in the queue everything the queue
  held before the call and the buffer of the call.
\<close>

lemma writeLog_throws_keeps_queue:
  "writeLog e d l w = (Threw x, l', w') \<Longrightarrow> logDataQueue l' = logDataQueue l @ [d]"
proof -
  assume a: "writeLog e d l w = (Threw x, l', w')"
  obtain st1 l1 w1 where b: "writeLog_begin (today e) d l w = (st1, l1, w1)"
    by (cases "writeLog_begin (today e) d l w")
  have run: "writeLog_run e (st1, l1, w1) = (Threw x, l', w')"
    using a b by (simp add: writeLog_def)
  then have "st1 \<noteq> Returned" by auto
  then have "logDataQueue l1 = logDataQueue l @ [d]"
    using writeLog_begin_queue [OF b] by simp
  then show ?thesis using writeLog_run_queue [OF run] by simp
qed

text \<open>
  With \<open>fileTimeout = 0\<close>, an awaited call whose write fails leaves its file open: line
  285 is not reached.
\<close>

lemma failed_write_keeps_file_open:
  "writeLog (io0\<lparr>writeOk := (\<lambda>i. False)\<rparr>) ''a'' (Log0 0) Runtime0 =
     (Threw WriteFailed,
      (Log0 0)\<lparr>logDataQueue := [''a''], logFile := Some 3\<rparr>,
      Runtime0\<lparr>openFiles := [3 \<mapsto> [''home'', ''app'', ''logs'', ''2024-01-01'', ''test.log'']],
        files := [[''home'', ''app'', ''logs'', ''2024-01-01'', ''test.log''] \<mapsto> []],
        nextRid := 4\<rparr>)"
  by (simp add: writeLog_def writeLog_begin_def Log0_fields Let_def closeLogs_def io0_def
      Deno_open_def writeLog_loop_def Runtime0_def absolutePath_def rootFolderToLogs_def
      Path_resolve_def resolve_step_def)

text \<open>
  C8, at the failing input. Three calls of \<^verbatim>\<open>writeLog\<close> on a new instance with
  \<open>fileTimeout = 50\<close>, none awaited: \<^verbatim>\<open>log.info("a"); log.info("b")\<close>, and \<^verbatim>\<open>log.info("c")\<close>
  from another callback a moment later. The second call starts while the first waits for
  its write of \<open>a\<close>, finds the guard false and runs the loop of lines 280-282 for
  itself, so \<open>a\<close> and \<open>b\<close> are each written twice, the writes settling in the order in
  which they were started. When the first call has written \<open>b\<close> it empties the queue
  and returns. Now the third call puts \<open>c\<close> into the queue and starts to write it. Then
  the second call's write of \<open>b\<close> settles: its iterator stands at index 2, the queue
  has length 1, so its loop is over and line 283 empties the queue, while \<open>c\<close> is not
  written yet. The write of \<open>c\<close> fails: the third call throws, and \<open>c\<close> is neither in
  the file nor in the queue.
\<close>

theorem overlapping_calls_drop_buffer:
  "(let s = sys_run [Call ''2024-01-01'' ''a'', Settle 0 IoOk, Settle 0 IoOk,
                     Call ''2024-01-01'' ''b'', Settle 0 IoOk, Settle 1 IoOk, Settle 0 IoOk,
                     Call ''2024-01-01'' ''c'']
              \<lparr>inst = Log0 50, rt = Runtime0, calls = []\<rparr>
    in calls s = [Returned,
                  Suspended (AwaitWrite 1 [''home'', ''app'', ''logs'', ''2024-01-01'', ''test.log''] ''b''),
                  Suspended (AwaitWrite 0 [''home'', ''app'', ''logs'', ''2024-01-01'', ''test.log''] ''c'')]
       \<and> logDataQueue (inst s) = [''c'']
       \<and> files (rt s) [''home'', ''app'', ''logs'', ''2024-01-01'', ''test.log''] = Some ''aab'')
   \<and> (let s = sys_run [Call ''2024-01-01'' ''a'', Settle 0 IoOk, Settle 0 IoOk,
                     Call ''2024-01-01'' ''b'', Settle 0 IoOk, Settle 1 IoOk, Settle 0 IoOk,
                     Call ''2024-01-01'' ''c'', Settle 1 IoOk]
              \<lparr>inst = Log0 50, rt = Runtime0, calls = []\<rparr>
    in calls s = [Returned, Returned,
                  Suspended (AwaitWrite 0 [''home'', ''app'', ''logs'', ''2024-01-01'', ''test.log''] ''c'')]
       \<and> logDataQueue (inst s) = []
       \<and> files (rt s) [''home'', ''app'', ''logs'', ''2024-01-01'', ''test.log''] = Some ''aabb'')
   \<and> (let s = sys_run [Call ''2024-01-01'' ''a'', Settle 0 IoOk, Settle 0 IoOk,
                     Call ''2024-01-01'' ''b'', Settle 0 IoOk, Settle 1 IoOk, Settle 0 IoOk,
                     Call ''2024-01-01'' ''c'', Settle 1 IoOk, Settle 2 IoFail]
              \<lparr>inst = Log0 50, rt = Runtime0, calls = []\<rparr>
    in calls s = [Returned, Returned, Threw WriteFailed]
       \<and> logDataQueue (inst s) = []
       \<and> files (rt s) [''home'', ''app'', ''logs'', ''2024-01-01'', ''test.log''] = Some ''aabb'')"
  by (simp add: sys_run_def Log0_fields Runtime0_def writeLog_begin_def writeLog_loop_def
      closeLogs_def Let_def absolutePath_def rootFolderToLogs_def Path_resolve_def
      resolve_step_def Deno_open_def setTimeout_def timer_delay_def append_file_def truthy_id_def
      FsFile_close_def fire_def clearTimeout_def)

text \<open>
  C1, at the failing input. Two calls of \<^verbatim>\<open>writeLog\<close> on a new instance with
  \<open>fileTimeout = 0\<close>, the second made while the first waits for \<^verbatim>\<open>Deno.mkdir\<close>, as in
  \<^verbatim>\<open>log.info("a"); log.info("b")\<close>, every operation succeeding. Both calls open the
  file, and each writes the whole queue. When both have returned, the instance holds no
  file and no timer, but the resource the first call opened is still open, with nothing
  left to close it, and the file holds \<open>aabb\<close>, not \<open>ab\<close>.
\<close>

theorem overlapping_calls_fileTimeout_0:
  "(let s = sys_run [Call ''2024-01-01'' ''a'', Call ''2024-01-01'' ''b'',
                     Settle 0 IoOk, Settle 1 IoOk, Settle 0 IoOk, Settle 1 IoOk,
                     Settle 0 IoOk, Settle 1 IoOk, Settle 0 IoOk, Settle 1 IoOk]
              \<lparr>inst = Log0 0, rt = Runtime0, calls = []\<rparr>
    in calls s = [Returned, Returned]
       \<and> logFile (inst s) = None \<and> logFileTimeout (inst s) = None
       \<and> logDataQueue (inst s) = [] \<and> timers (rt s) = []
       \<and> openFiles (rt s) 3 = Some [''home'', ''app'', ''logs'', ''2024-01-01'', ''test.log'']
       \<and> openFiles (rt s) 4 = None
       \<and> files (rt s) [''home'', ''app'', ''logs'', ''2024-01-01'', ''test.log''] = Some ''aabb'')"
  by (simp add: sys_run_def Log0_fields Runtime0_def writeLog_begin_def writeLog_loop_def
      closeLogs_def Let_def absolutePath_def rootFolderToLogs_def Path_resolve_def
      resolve_step_def Deno_open_def setTimeout_def timer_delay_def append_file_def truthy_id_def
      FsFile_close_def fire_def clearTimeout_def)

text \<open>
  C4. \<^verbatim>\<open>closeLogs\<close> leaves no file in the instance and can be called again with no
  further effect. With a file open it closes the resource, forgets the timer id and
  cancels the timer (an id is truthy: \<^verbatim>\<open>setTimeout\<close> never returns 0); with no file open
  it changes nothing. The date marker \<^verbatim>\<open>_logFileDate\<close> is left as it was: no line of
  \<^verbatim>\<open>closeLogs\<close> assigns it.
\<close>

theorem closeLogs_idempotent:
  "case closeLogs l w of
     (l', w') \<Rightarrow>
       logFile l' = None \<and> logFileDate l' = logFileDate l \<and> closeLogs l' w' = (l', w')
       \<and> (case logFile l of
             None \<Rightarrow> l' = l \<and> w' = w
           | Some f \<Rightarrow>
               logFileTimeout l' = None \<and> openFiles w' = (openFiles w)(f := None)
               \<and> timers w' =
                   (if truthy_id (logFileTimeout l)
                    then filter (\<lambda>(i, due). Some i \<noteq> logFileTimeout l) (timers w)
                    else timers w))"
  by (auto simp: closeLogs_def FsFile_close_def clearTimeout_def truthy_id_def
      split: option.splits intro!: filter_cong)

text \<open>The sample instance after one call, with its file open and its timer pending.\<close>

lemma opened_eq:
  "writeLog io0 ''a'' (Log0 50) Runtime0 =
     (Returned,
      (Log0 50)\<lparr>logFileDate := ''2024-01-01'', logFile := Some 3, logFileTimeout := Some 1\<rparr>,
      Runtime0\<lparr>openFiles := [3 \<mapsto> [''home'', ''app'', ''logs'', ''2024-01-01'', ''test.log'']],
        files := [[''home'', ''app'', ''logs'', ''2024-01-01'', ''test.log''] \<mapsto> ''a''],
        nextRid := 4, timers := [(1, 50)], nextTimerId := 2\<rparr>)"
proof -
  have "fileTimeout (Log0 50) \<noteq> 0" "nextTimerId Runtime0 \<noteq> 0"
    by (simp_all add: Log0_fields Runtime0_def)
  from writeLog_idle_timer [OF this(1) idle_Log0 ioOk_io0 this(2), of "''a''"]
  show ?thesis
    by (simp add: target_io0) (simp add: Runtime0_def Log0_fields io0_def file_content_def timer_delay_def)
qed

theorem closeLogs_idempotent_witness:
  "(case closeLogs (fst (snd (writeLog io0 ''a'' (Log0 50) Runtime0)))
          (snd (snd (writeLog io0 ''a'' (Log0 50) Runtime0))) of
      (l', w') \<Rightarrow> logFile l' = None \<and> logFileTimeout l' = None \<and> openFiles w' 3 = None
         \<and> timers w' = [] \<and> closeLogs l' w' = (l', w'))"
  using closeLogs_idempotent [of "fst (snd (writeLog io0 ''a'' (Log0 50) Runtime0))"
      "snd (snd (writeLog io0 ''a'' (Log0 50) Runtime0))"]
  by (simp add: opened_eq truthy_id_def split: prod.splits)

text \<open>Against C4 as stated: the date marker is not cleared when an open file is closed.\<close>

theorem closeLogs_clears_date_counterexample:
  "logFile (fst (snd (writeLog io0 ''a'' (Log0 50) Runtime0))) = Some 3
   \<and> logFileDate (fst (closeLogs (fst (snd (writeLog io0 ''a'' (Log0 50) Runtime0)))
          (snd (snd (writeLog io0 ''a'' (Log0 50) Runtime0))))) = ''2024-01-01''"
  by (simp add: opened_eq closeLogs_def)

section \<open>The guard flag, and calls that overlap\<close>











section \<open>The idle timer\<close>

lemma elapse_not_due:
  "\<forall>(i, d) \<in> set (timers w). clock w + ms < d \<Longrightarrow> elapse ms l w = (l, w\<lparr>clock := clock w + ms\<rparr>)"
proof -
  assume a: "\<forall>(i, d) \<in> set (timers w). clock w + ms < d"
  have "filter (\<lambda>(i, d). d \<le> clock w + ms) (sort_key snd (timers w)) = []"
    using a by (auto simp: filter_empty_conv)
  then show ?thesis by (simp add: elapse_def Let_def)
qed

text \<open>
  C2, at the failing input. An instance with \<open>fileTimeout = 50\<close>: a first call at time 0
  opens the file and sets the timer, due at 50. A second call at time 40 writes through
  the open file and leaves the timer as it is, so at time 50, only 10 milliseconds
  after the second call, the timer fires and the file is closed.
\<close>

theorem timer_set_at_open_only:
  "case writeLog io0 ''a'' (Log0 50) Runtime0 of
     (st1, l1, w1) \<Rightarrow>
       (case elapse 40 l1 w1 of
          (l2, w2) \<Rightarrow>
            (case writeLog io0 ''b'' l2 w2 of
               (st3, l3, w3) \<Rightarrow>
                 (case elapse 10 l3 w3 of
                    (l4, w4) \<Rightarrow>
                      timers w1 = [(1, 50)] \<and> clock w2 = 40 \<and> logFile l2 = Some 3
                      \<and> st3 = Returned \<and> logFile l3 = Some 3 \<and> clock w3 = 40
                      \<and> timers w3 = [(1, 50)]
                      \<and> files w3 [''home'', ''app'', ''logs'', ''2024-01-01'', ''test.log''] = Some ''ab''
                      \<and> clock w4 = 50 \<and> logFile l4 = None \<and> openFiles w4 3 = None
                      \<and> timers w4 = [])))"
proof -
  let ?P = "[''home'', ''app'', ''logs'', ''2024-01-01'', ''test.log'']"
  let ?l1 = "(Log0 50)\<lparr>logFileDate := ''2024-01-01'', logFile := Some 3, logFileTimeout := Some 1\<rparr>"
  let ?w1 = "Runtime0\<lparr>openFiles := [3 \<mapsto> ?P], files := [?P \<mapsto> ''a''],
        nextRid := 4, timers := [(1, 50)], nextTimerId := 2\<rparr>"
  let ?w2 = "?w1\<lparr>clock := 40\<rparr>"
  have e1: "elapse 40 ?l1 ?w1 = (?l1, ?w2)"
    using elapse_not_due [of ?w1 40 ?l1] by (simp add: Runtime0_def)
  have w3: "writeLog io0 ''b'' ?l1 ?w2 = (Returned, ?l1, append_file ?P ''b'' ?w2)"
    by (rule writeLog_reuse [where f = 3])
       (simp_all add: Log0_fields io0_def truthy_id_def)
  have e2: "elapse 10 ?l1 (append_file ?P ''b'' ?w2) =
      (?l1\<lparr>logFile := None, logFileTimeout := None\<rparr>,
       (append_file ?P ''b'' ?w2)\<lparr>clock := 50, timers := [], openFiles := Map.empty\<rparr>)"
    by (simp add: elapse_def Let_def append_file_def Runtime0_def fire_def closeLogs_def
        truthy_id_def clearTimeout_def FsFile_close_def)
  show ?thesis
    unfolding opened_eq prod.case e1 w3 e2
    by (simp add: append_file_def Runtime0_def)
qed

section \<open>Two calls that overlap\<close>

text \<open>
  C3, at the failing input. Two calls of \<^verbatim>\<open>writeLog\<close> on a new instance with
  \<open>fileTimeout = 50\<close>, the second made while the first waits for \<^verbatim>\<open>Deno.mkdir\<close>, as in
  \<^verbatim>\<open>log.info("a"); log.info("b")\<close>. Both find \<^verbatim>\<open>_logFile\<close> empty and the guard false, and
  both open the file: after the second \<^verbatim>\<open>Deno.open\<close> two resources are open, and
  \<^verbatim>\<open>_logFile\<close> holds the second. When both calls have returned and the timer has
  closed the file of the instance, the first resource is still open and nothing refers
  to it; each buffer has been written twice.
\<close>

theorem overlapping_calls_open_two_files:
  "(let s = sys_run [Call ''2024-01-01'' ''a'', Call ''2024-01-01'' ''b'',
                     Settle 0 IoOk, Settle 1 IoOk, Settle 0 IoOk, Settle 1 IoOk]
              \<lparr>inst = Log0 50, rt = Runtime0, calls = []\<rparr>
    in logFile (inst s) = Some 4
       \<and> openFiles (rt s) 3 = Some [''home'', ''app'', ''logs'', ''2024-01-01'', ''test.log'']
       \<and> openFiles (rt s) 4 = Some [''home'', ''app'', ''logs'', ''2024-01-01'', ''test.log''])
   \<and> (let s = sys_run [Call ''2024-01-01'' ''a'', Call ''2024-01-01'' ''b'',
                     Settle 0 IoOk, Settle 1 IoOk, Settle 0 IoOk, Settle 1 IoOk,
                     Settle 0 IoOk, Settle 1 IoOk, Settle 0 IoOk, Settle 1 IoOk,
                     Timer 1]
              \<lparr>inst = Log0 50, rt = Runtime0, calls = []\<rparr>
    in calls s = [Returned, Returned] \<and> logFile (inst s) = None \<and> timers (rt s) = []
       \<and> openFiles (rt s) 3 = Some [''home'', ''app'', ''logs'', ''2024-01-01'', ''test.log'']
       \<and> openFiles (rt s) 4 = None
       \<and> files (rt s) [''home'', ''app'', ''logs'', ''2024-01-01'', ''test.log''] = Some ''aabb'')"
  by (simp add: sys_run_def Log0_fields Runtime0_def writeLog_begin_def writeLog_loop_def
      closeLogs_def Let_def absolutePath_def rootFolderToLogs_def Path_resolve_def
      resolve_step_def Deno_open_def setTimeout_def timer_delay_def append_file_def truthy_id_def
      FsFile_close_def fire_def clearTimeout_def)

section \<open>The loop of \<^verbatim>\<open>custom\<close> ends for the colours of the level methods\<close>

lemma expand_no_dollar: "CHR ''$'' \<notin> set r \<Longrightarrow> expand r m pre post = r"
  by (induction r m pre post rule: expand.induct) auto

lemma replace_from_pre:
  "CHR ''$'' \<notin> set r \<Longrightarrow> p \<noteq> [] \<Longrightarrow> replace_from pre s p r = pre @ replace_from [] s p r"
proof (induction s arbitrary: pre)
  case Nil
  then show ?case by simp
next
  case (Cons x xs)
  show ?case
  proof (cases "starts_with (x # xs) p")
    case True
    then show ?thesis using Cons.prems by (simp add: expand_no_dollar)
  next
    case False
    then show ?thesis
      using Cons.IH [OF Cons.prems, of "pre @ [x]"] Cons.IH [OF Cons.prems, of "[x]"]
      by simp
  qed
qed

lemma js_replace_Nil: "p \<noteq> [] \<Longrightarrow> js_replace [] p r = []"
  by (simp add: js_replace_def)

lemma js_replace_Cons:
  "CHR ''$'' \<notin> set r \<Longrightarrow> p \<noteq> [] \<Longrightarrow>
   js_replace (x # xs) p r =
     (if starts_with (x # xs) p then r @ drop (length p) (x # xs) else x # js_replace xs p r)"
  using replace_from_pre [of r p "[x]" xs]
  by (simp add: js_replace_def expand_no_dollar)

lemma starts_with_Cons: "starts_with (a # s) (b # p) = (a = b \<and> starts_with s p)"
  by (auto simp: starts_with_def)

lemma starts_with_Nil: "starts_with s [] = True" "starts_with [] p = (p = [])"
  by (auto simp: starts_with_def)

lemma special_normal_ne: "special_normal \<noteq> []"
  by (simp add: special_normal_def)

lemma starts_with_replaced:
  assumes "CHR ''$'' \<notin> set (ESC # c)"
  shows "ESC \<notin> set p \<Longrightarrow> starts_with (js_replace xs special_normal (ESC # c)) p \<Longrightarrow> starts_with xs p"
proof (induction xs arbitrary: p)
  case Nil
  then show ?case by (simp add: js_replace_Nil special_normal_ne)
next
  case (Cons y ys)
  show ?case
  proof (cases p)
    case Nil
    then show ?thesis by (simp add: starts_with_Nil)
  next
    case (Cons q qs)
    show ?thesis
    proof (cases "starts_with (y # ys) special_normal")
      case True
      then show ?thesis
        using Cons.prems Cons assms
        by (simp add: js_replace_Cons [OF assms special_normal_ne] starts_with_Cons)
    next
      case False
      then show ?thesis
        using Cons.prems Cons Cons.IH [of qs]
        by (simp add: js_replace_Cons [OF assms special_normal_ne] starts_with_Cons)
    qed
  qed
qed

lemma occurrences_drop: "occurrences (drop k s) \<le> occurrences s"
proof (induction s arbitrary: k)
  case Nil
  then show ?case by simp
next
  case (Cons x xs)
  then show ?case by (cases k) (simp_all add: le_SucI trans_le_add2)
qed

lemma str_includes_occurrences: "str_includes m special_normal = (0 < occurrences m)"
  by (induction m) (auto simp: special_normal_ne)

lemma occurrences_replaced:
  assumes d: "CHR ''$'' \<notin> set (ESC # c)"
    and c: "\<And>rest. occurrences ((ESC # c) @ rest) = occurrences rest"
  shows "str_includes m special_normal \<Longrightarrow>
         occurrences (js_replace m special_normal (ESC # c)) < occurrences m"
proof (induction m)
  case Nil
  then show ?case by (simp add: special_normal_ne)
next
  case (Cons x xs)
  show ?case
  proof (cases "starts_with (x # xs) special_normal")
    case True
    have "occurrences ((ESC # c) @ drop (length special_normal) (x # xs))
          = occurrences (drop (length special_normal) (x # xs))"
      by (rule c)
    also have "\<dots> \<le> occurrences xs"
      using occurrences_drop [of "length special_normal - 1" xs]
      by (simp add: special_normal_def)
    finally show ?thesis
      using True by (simp add: js_replace_Cons [OF d special_normal_ne])
  next
    case False
    then have i: "str_includes xs special_normal" using Cons.prems by simp
    have "\<not> starts_with (x # js_replace xs special_normal (ESC # c)) special_normal"
    proof
      assume a: "starts_with (x # js_replace xs special_normal (ESC # c)) special_normal"
      then have "x = ESC" "starts_with (js_replace xs special_normal (ESC # c)) ''[0m''"
        by (simp_all add: special_normal_def starts_with_Cons)
      then have "starts_with xs ''[0m''"
        using starts_with_replaced [OF d, of "''[0m''" xs] by (simp add: ESC_def)
      then show False using False \<open>x = ESC\<close> by (simp add: special_normal_def starts_with_Cons)
    qed
    then show ?thesis
      using False Cons.IH [OF i] by (simp add: js_replace_Cons [OF d special_normal_ne])
  qed
qed

lemma recolor_terminates:
  assumes d: "CHR ''$'' \<notin> set (ESC # c)"
    and c: "\<And>rest. occurrences ((ESC # c) @ rest) = occurrences rest"
  shows "\<exists>r. recolor (ESC # c) m = Some r"
proof (induction "occurrences m" arbitrary: m rule: less_induct)
  case less
  show ?case
  proof (cases "str_includes m special_normal")
    case True
    have "\<exists>r. recolor (ESC # c) (js_replace m special_normal (ESC # c)) = Some r"
      by (rule less) (rule occurrences_replaced [OF d c True])
    then show ?thesis
      using True by (subst recolor.simps) simp
  next
    case False
    then show ?thesis by (subst recolor.simps) simp
  qed
qed

lemma occurrences_color:
  "occurrences (foreground_cyan @ rest) = occurrences rest"
  "occurrences (foreground_green @ rest) = occurrences rest"
  "occurrences (foreground_yellow @ rest) = occurrences rest"
  "occurrences (foreground_red @ rest) = occurrences rest"
  by (simp_all add: foreground_cyan_def foreground_green_def foreground_yellow_def
      foreground_red_def special_normal_def starts_with_Cons ESC_def)

lemma recolor_level_colors:
  "\<exists>r. recolor (concat [foreground_cyan]) m = Some r"
  "\<exists>r. recolor (concat [foreground_green]) m = Some r"
  "\<exists>r. recolor (concat [foreground_yellow]) m = Some r"
  "\<exists>r. recolor (concat [foreground_red]) m = Some r"
proof -
  have d: "CHR ''$'' \<notin> set (ESC # ''[36m'')" "CHR ''$'' \<notin> set (ESC # ''[32m'')"
    "CHR ''$'' \<notin> set (ESC # ''[33m'')" "CHR ''$'' \<notin> set (ESC # ''[31m'')"
    by (simp_all add: ESC_def)
  have "\<exists>r. recolor foreground_cyan m = Some r"
    unfolding foreground_cyan_def
    by (rule recolor_terminates [OF d(1) occurrences_color(1) [unfolded foreground_cyan_def]])
  moreover have "\<exists>r. recolor foreground_green m = Some r"
    unfolding foreground_green_def
    by (rule recolor_terminates [OF d(2) occurrences_color(2) [unfolded foreground_green_def]])
  moreover have "\<exists>r. recolor foreground_yellow m = Some r"
    unfolding foreground_yellow_def
    by (rule recolor_terminates [OF d(3) occurrences_color(3) [unfolded foreground_yellow_def]])
  moreover have "\<exists>r. recolor foreground_red m = Some r"
    unfolding foreground_red_def
    by (rule recolor_terminates [OF d(4) occurrences_color(4) [unfolded foreground_red_def]])
  ultimately show
    "\<exists>r. recolor (concat [foreground_cyan]) m = Some r"
    "\<exists>r. recolor (concat [foreground_green]) m = Some r"
    "\<exists>r. recolor (concat [foreground_yellow]) m = Some r"
    "\<exists>r. recolor (concat [foreground_red]) m = Some r"
    by simp_all
qed

lemma recolor_plain: "\<not> str_includes m special_normal \<Longrightarrow> recolor c m = Some m"
  by (subst recolor.simps) simp

section \<open>The loop of \<^verbatim>\<open>custom\<close> and the colours of the table\<close>

lemma TerminalColor_shape:
  "k \<in> set TerminalColor \<Longrightarrow> (\<exists>t. k = ESC # t) \<and> CHR ''$'' \<notin> set k"
  by (auto simp: TerminalColor_def ESC_def)

lemma occurrences_TerminalColor:
  "k \<in> set TerminalColor \<Longrightarrow> k \<noteq> special_normal \<Longrightarrow> occurrences (k @ rest) = occurrences rest"
  by (auto simp: TerminalColor_def special_normal_def starts_with_Cons ESC_def)

lemma occurrences_colors:
  "set cs \<subseteq> set TerminalColor \<Longrightarrow> special_normal \<notin> set cs \<Longrightarrow>
   occurrences (concat cs @ rest) = occurrences rest"
proof (induction cs)
  case Nil
  then show ?case by simp
next
  case (Cons k cs)
  have "occurrences (k @ (concat cs @ rest)) = occurrences (concat cs @ rest)"
    using Cons.prems by (intro occurrences_TerminalColor) auto
  then show ?case using Cons by simp
qed

lemma dollar_colors: "set cs \<subseteq> set TerminalColor \<Longrightarrow> CHR ''$'' \<notin> set (concat cs)"
  using TerminalColor_shape by auto

text \<open>
  The loop of lines 425-430 ends when every colour is a value of the table and the
  colour \<^verbatim>\<open>special.normal\<close> is not among them, or the message holds no \<^verbatim>\<open>special.normal\<close>.
\<close>

lemma recolor_TerminalColor:
  assumes "set (c0 # cs) \<subseteq> set TerminalColor"
    "special_normal \<notin> set (c0 # cs) \<or> \<not> str_includes m special_normal"
  shows "\<exists>r. recolor (concat (c0 # cs)) m = Some r"
proof (cases "str_includes m special_normal")
  case False
  then show ?thesis using recolor_plain by blast
next
  case True
  then have n: "special_normal \<notin> set (c0 # cs)" using assms(2) by blast
  obtain t where t: "c0 = ESC # t"
    using TerminalColor_shape [of c0] assms(1) by auto
  have c: "concat (c0 # cs) = ESC # (t @ concat cs)" by (simp add: t)
  have "\<exists>r. recolor (ESC # (t @ concat cs)) m = Some r"
  proof (rule recolor_terminates)
    show "CHR ''$'' \<notin> set (ESC # t @ concat cs)"
      using dollar_colors [OF assms(1)] by (simp add: t)
    show "occurrences ((ESC # t @ concat cs) @ rest) = occurrences rest" for rest
      using occurrences_colors [OF assms(1) n, of rest] by (simp add: t)
  qed
  then show ?thesis by (simp only: c)
qed


lemma starts_with_append: "starts_with s p \<Longrightarrow> starts_with (s @ rest) p"
proof -
  assume a: "starts_with s p"
  then have "length (take (length p) s) = length p"
    by (simp add: starts_with_def)
  then have "length p \<le> length s"
    by simp
  then show ?thesis using a by (simp add: starts_with_def)
qed

lemma str_includes_append: "str_includes c p \<Longrightarrow> str_includes (c @ rest) p"
proof (induction c)
  case Nil
  then show ?case by (cases rest) (simp_all add: starts_with_def)
next
  case (Cons x xs)
  then show ?case using starts_with_append [of "x # xs" p rest] by auto
qed

lemma str_includes_replaced:
  assumes d: "CHR ''$'' \<notin> set c" and c: "str_includes c special_normal"
  shows "str_includes m special_normal \<Longrightarrow> str_includes (js_replace m special_normal c) special_normal"
proof (induction m)
  case Nil
  then show ?case by (simp add: special_normal_ne)
next
  case (Cons x xs)
  show ?case
  proof (cases "starts_with (x # xs) special_normal")
    case True
    then show ?thesis
      using str_includes_append [OF c] by (simp add: js_replace_Cons [OF d special_normal_ne])
  next
    case False
    then have "str_includes xs special_normal" using Cons.prems by simp
    then show ?thesis
      using False Cons.IH by (simp add: js_replace_Cons [OF d special_normal_ne])
  qed
qed

text \<open>
  The loop does not end when the colours hold \<^verbatim>\<open>special.normal\<close> and the message does
  too: every replacement brings the next occurrence.
\<close>

lemma recolor_never_ends:
  assumes d: "CHR ''$'' \<notin> set c" and c: "str_includes c special_normal"
    and m: "str_includes m special_normal"
  shows "recolor c m = None"
proof -
  have "\<not> (c' = c \<and> str_includes m' special_normal)" if "recolor c' m' = Some y" for c' m' y
  proof (rule recolor.raw_induct
      [where P = "\<lambda>c' m' y. \<not> (c' = c \<and> str_includes m' special_normal)", OF _ that])
    fix f c' m' y
    assume ih: "\<And>c' m' y. f c' m' = Some y \<Longrightarrow> \<not> (c' = c \<and> str_includes m' special_normal)"
      and st: "(if str_includes m' special_normal then f c' (js_replace m' special_normal c') else Some m')
               = Some y"
    show "\<not> (c' = c \<and> str_includes m' special_normal)"
    proof
      assume a: "c' = c \<and> str_includes m' special_normal"
      then have "f c (js_replace m' special_normal c) = Some y"
        using st by simp
      moreover have "str_includes (js_replace m' special_normal c) special_normal"
        using a str_includes_replaced [OF d c] by blast
      ultimately show False using ih by blast
    qed
  qed
  then show ?thesis using m by (cases "recolor c m") auto
qed

lemma indent_tail:
  "map indent_line (enumerate (Suc n) xs)
     = map (\<lambda>line. special_normal @ foreground_red @ middlePrefix @ special_normal @ line) xs"
  by (induction xs arbitrary: n) (simp_all add: indent_line_def colorString_def)

lemma indent_lines_eq:
  "indent_lines m =
     (case str_split (CHR 0x0A) m of
        [] \<Rightarrow> []
      | first # rest \<Rightarrow>
          str_join [CHR 0x0A]
            (first # map (\<lambda>line. special_normal @ foreground_red @ middlePrefix @ special_normal @ line) rest))"
  by (cases "str_split (CHR 0x0A) m") (simp_all add: indent_lines_def indent_line_def indent_tail)

section \<open>When \<^verbatim>\<open>custom\<close> does not reach the window\<close>

lemma str_includes_prepend: "str_includes s p \<Longrightarrow> str_includes (k @ s) p"
  by (induction k) simp_all

lemma str_includes_colors:
  "special_normal \<in> set colors \<Longrightarrow> str_includes (concat colors) special_normal"
proof (induction colors)
  case Nil
  then show ?case by simp
next
  case (Cons k ks)
  show ?case
  proof (cases "k = special_normal")
    case True
    have "str_includes special_normal special_normal"
      by (simp add: special_normal_def starts_with_def)
    then show ?thesis
      using str_includes_append [of special_normal special_normal "concat ks"] True by simp
  next
    case False
    then have "str_includes (concat ks) special_normal" using Cons by simp
    then show ?thesis using str_includes_prepend [of "concat ks" special_normal k] by simp
  qed
qed

text \<open>
  With \<^verbatim>\<open>special.normal\<close> among the colours and in the text of the message, \<^verbatim>\<open>custom\<close> does
  not return.
\<close>

lemma custom_never_returns:
  assumes "parse_message h (fst (parse_error w message isError)) = Normal m2"
    "set colors \<subseteq> set TerminalColor" "special_normal \<in> set colors"
    "str_includes m2 special_normal"
  shows "custom h message colors getLine isError rp w = None"
proof -
  have "recolor (concat colors) m2 = None"
    by (rule recolor_never_ends [OF dollar_colors [OF assms(2)] str_includes_colors [OF assms(3)] assms(4)])
  moreover obtain m1 e1 where pe: "parse_error w message isError = (m1, e1)"
    by (cases "parse_error w message isError")
  ultimately show ?thesis
    using assms(1) by (simp add: custom_def)
qed


text \<open>With no colour the loop ends, and line 448 throws.\<close>

lemma length_replaced:
  "str_includes m special_normal \<Longrightarrow> length (js_replace m special_normal []) < length m"
proof (induction m)
  case Nil
  then show ?case by (simp add: special_normal_ne)
next
  case (Cons x xs)
  have d: "CHR ''$'' \<notin> set []" by simp
  show ?case
  proof (cases "starts_with (x # xs) special_normal")
    case True
    have "js_replace (x # xs) special_normal [] = drop (length special_normal) (x # xs)"
      using True by (simp add: js_replace_Cons [OF d special_normal_ne])
    then show ?thesis
      by (simp add: special_normal_def)
  next
    case False
    then have "str_includes xs special_normal" using Cons.prems by simp
    then show ?thesis
      using False Cons.IH by (simp add: js_replace_Cons [OF d special_normal_ne])
  qed
qed

lemma recolor_no_colors: "\<exists>r. recolor [] m = Some r"
proof (induction "length m" arbitrary: m rule: less_induct)
  case less
  show ?case
  proof (cases "str_includes m special_normal")
    case True
    have "\<exists>r. recolor [] (js_replace m special_normal []) = Some r"
      by (rule less) (rule length_replaced [OF True])
    then show ?thesis
      using True by (subst recolor.simps) simp
  next
    case False
    then show ?thesis by (subst recolor.simps) simp
  qed
qed

lemma custom_no_colors:
  assumes "parse_message h (fst (parse_error w message isError)) = Normal m2"
  shows "custom h message [] getLine isError rp w = Some (Throw TypeError, w)"
proof -
  obtain r where "recolor [] m2 = Some r"
    using recolor_no_colors by blast
  moreover obtain m1 e1 where "parse_error w message isError = (m1, e1)"
    by (cases "parse_error w message isError")
  ultimately show ?thesis
    using assms by (simp add: custom_def)
qed

text \<open>A message without text: line 423 throws.\<close>

lemma custom_no_text:
  "custom h (JForeign None) colors getLine isError rp w = Some (Throw TypeError, w)"
  by (simp add: custom_def parse_error_def parse_message_def)

section \<open>The facade returns\<close>

lemma custom_returns:
  assumes "\<And>m. \<exists>r. recolor (concat colors) m = Some r"
  shows "\<exists>r w1. custom h message colors getLine isError rp w = Some (r, w1)"
proof -
  obtain m1 e1 where pe: "parse_error w message isError = (m1, e1)"
    by (cases "parse_error w message isError")
  show ?thesis
  proof (cases "parse_message h m1")
    case (Throw x)
    then show ?thesis by (simp add: custom_def pe)
  next
    case (Normal m2)
    obtain m3 where r: "recolor (concat colors) m2 = Some m3"
      using assms by blast
    obtain a b where cw: "custom_window rp w = (a, b)"
      by (cases "custom_window rp w")
    show ?thesis
    proof (cases colors)
      case Nil
      with r have "recolor [] m2 = Some m3" by simp
      then show ?thesis by (simp add: custom_def pe Normal Nil)
    next
      case (Cons c0 cs)
      with r have "recolor (c0 @ concat cs) m2 = Some m3" by simp
      then show ?thesis by (simp add: custom_def pe Normal Cons cw Let_def)
    qed
  qed
qed

lemma createNewLog_save_cases:
  "\<exists>c l' w'. createNewLog_save h e type file content l w = (c, l', w')"
  by (cases "createNewLog_save h e type file content l w") simp

lemma createNewLog_returns:
  assumes "\<And>m. \<exists>r. recolor (concat colors) m = Some r"
  shows "\<exists>l' w'. createNewLog h e type message args colors getLine l w = Some (Normal JNull, l', w')"
proof -
  have "\<exists>c l' w'. createNewLog_try h e type message args colors getLine l w = Some (c, l', w')"
  proof (cases "substitute message args")
    case (Throw x)
    then show ?thesis by (simp add: createNewLog_try_def)
  next
    case (Normal content)
    show ?thesis
    proof (cases "shouldConsoleLog l")
      case False
      then show ?thesis
        using createNewLog_save_cases [of h e type "getFileCode h InCreateNewLog (getLine + 1)" content l w]
        by (auto simp: createNewLog_try_def Normal)
    next
      case True
      obtain r w1 where c: "custom h content colors (getLine + 1) (type = LError)
          (Label (relativePathString l)) w = Some (r, w1)"
        using custom_returns [OF assms] by blast
      show ?thesis
      proof (cases r)
        case (Throw x)
        then show ?thesis using c by (simp add: createNewLog_try_def Normal True Let_def)
      next
        case (Normal v)
        then show ?thesis
          using c createNewLog_save_cases [of h e type "getFileCode h InCreateNewLog (getLine + 1)" content l
              "if type = LError then valuesLog h l w1 else w1"]
          by (auto simp: createNewLog_try_def \<open>substitute message args = Normal content\<close> True Let_def)
      qed
    qed
  qed
  then obtain c l' w' where t: "createNewLog_try h e type message args colors getLine l w = Some (c, l', w')"
    by blast
  show ?thesis
    by (cases c) (simp_all add: createNewLog_def t)
qed

section \<open>What the console functions leave alone\<close>

lemma disk_console_print: "disk (console_print s line w) = disk w"
  by (simp add: disk_def console_print_def)

lemma disk_custom_window: "disk (snd (custom_window rp w)) = disk w"
  by (simp add: custom_window_def disk_def console_print_def Let_def split: label.splits)

lemma disk_custom:
  "custom h message colors getLine isError rp w = Some (r, w1) \<Longrightarrow> disk w1 = disk w"
  using disk_custom_window [of rp w]
  by (auto simp: custom_def Let_def disk_console_print
      split: prod.splits completion.splits option.splits list.splits)

lemma disk_fold_print:
  "disk (foldl (\<lambda>w line. console_print s (f line) w) w ls) = disk w"
  by (induction ls arbitrary: w) (simp_all add: disk_console_print)

lemma disk_valuesLog: "disk (valuesLog h l w) = disk w"
  by (simp add: valuesLog_def Let_def disk_console_print disk_fold_print)

lemma parse_message_Normal:
  "ToString m = Some s \<Longrightarrow> \<exists>t. parse_message h (fst (parse_error w m isError)) = Normal t"
  by (cases m) (simp_all add: parse_error_def parse_message_def Let_def)

lemma custom_Normal_parsed:
  assumes t: "parse_message h (fst (parse_error w m isError)) = Normal m2"
    and r: "\<And>m. \<exists>r. recolor (concat (c0 # cs)) m = Some r"
  shows "\<exists>w1. custom h m (c0 # cs) getLine isError rp w = Some (Normal JNull, w1)"
proof -
  obtain m1 e1 where pe: "parse_error w m isError = (m1, e1)"
    by (cases "parse_error w m isError")
  have pm: "parse_message h m1 = Normal m2"
    using t pe by simp
  obtain m3 where rc: "recolor (concat (c0 # cs)) m2 = Some m3"
    using r by blast
  obtain a b where cw: "custom_window rp w = (a, b)"
    by (cases "custom_window rp w")
  show ?thesis
    using rc by (simp add: custom_def pe pm cw Let_def)
qed

lemma custom_Normal:
  assumes t: "ToString m = Some s"
    and r: "\<And>m. \<exists>r. recolor (concat (c0 # cs)) m = Some r"
  shows "\<exists>w1. custom h m (c0 # cs) getLine isError rp w = Some (Normal JNull, w1)"
proof -
  obtain m2 where "parse_message h (fst (parse_error w m isError)) = Normal m2"
    using parse_message_Normal [OF t] by blast
  from custom_Normal_parsed [OF this r] show ?thesis .
qed

lemma parse_message_Throw: "(\<exists>x. parse_message h m = Throw x) = (m = JForeign None)"
  by (cases m) (auto simp: parse_message_def split: option.splits)

lemma parse_message_not_foreign:
  "m \<noteq> JForeign None \<Longrightarrow> \<exists>t. parse_message h (fst (parse_error w m isError)) = Normal t"
proof (cases m)
  case (JError msg st)
  then show ?thesis by (simp add: parse_error_def parse_message_def Let_def)
next
  case (JForeign s)
  assume "m \<noteq> JForeign None"
  then show ?thesis using JForeign by (auto simp: parse_error_def parse_message_def)
qed (simp_all add: parse_error_def parse_message_def)

lemma target_disk: "disk w1 = disk w \<Longrightarrow> target e l w1 = target e l w"
  by (simp add: disk_def target_def absolutePath_def rootFolderToLogs_def)

lemma file_content_disk: "disk w1 = disk w \<Longrightarrow> file_content w1 = file_content w"
  by (auto simp: disk_def file_content_def)

section \<open>Claims about the facade\<close>

text \<open>
  C6. Each of the level methods \<^verbatim>\<open>debug\<close>, \<^verbatim>\<open>info\<close>, \<^verbatim>\<open>warn\<close> and \<^verbatim>\<open>error\<close> of an instance
  returns, for every message, every list of arguments, every state of the instance and
  of the runtime and every answer of the environment, and what it returns is \<^verbatim>\<open>null\<close>: it
  never throws. An error thrown inside the \<^verbatim>\<open>try\<close> block of \<^verbatim>\<open>createNewLog\<close>, in the
  formatting, in \<^verbatim>\<open>custom\<close> or in \<^verbatim>\<open>writeLog\<close>, is printed to the error stream.
\<close>

theorem level_methods_never_throw:
  "(\<exists>l' w'. Log_debug h e message args l w = Some (Normal JNull, l', w'))
   \<and> (\<exists>l' w'. Log_info h e message args l w = Some (Normal JNull, l', w'))
   \<and> (\<exists>l' w'. Log_warn h e message args l w = Some (Normal JNull, l', w'))
   \<and> (\<exists>l' w'. Log_error h e message args l w = Some (Normal JNull, l', w'))
   \<and> (\<forall>type colors getLine x l1 w1.
         createNewLog_try h e type message args colors getLine l w = Some (Throw x, l1, w1) \<longrightarrow>
         createNewLog h e type message args colors getLine l w
           = Some (Normal JNull, l1, console_print Err (error_text x) w1))"
  unfolding Log_debug_def Log_info_def Log_warn_def Log_error_def
  using createNewLog_returns [OF recolor_level_colors(1), of h e LDebug message args 2 l w]
    createNewLog_returns [OF recolor_level_colors(2), of h e LInfo message args 2 l w]
    createNewLog_returns [OF recolor_level_colors(3), of h e LWarn message args 2 l w]
    createNewLog_returns [OF recolor_level_colors(4), of h e LError message args 2 l w]
  by (simp add: createNewLog_def)

text \<open>The witness: \<^verbatim>\<open>Deno.mkdir\<close> fails under \<^verbatim>\<open>info("Hello World")\<close>.\<close>

theorem level_methods_never_throw_witness:
  "createNewLog_try host0 (io0\<lparr>mkdirOk := False\<rparr>) LInfo (JString ''Hello World'') []
       [foreground_green] 2 (Log0 0) Runtime0
     = Some (Throw MkdirFailed,
             (Log0 0)\<lparr>logDataQueue := [''[9:05:00 AM] [INFO] [src/main.ts:7] Hello World'' @ [CHR 0x0A]]\<rparr>,
             Runtime0)
   \<and> Log_info host0 (io0\<lparr>mkdirOk := False\<rparr>) (JString ''Hello World'') [] (Log0 0) Runtime0
     = Some (Normal JNull,
             (Log0 0)\<lparr>logDataQueue := [''[9:05:00 AM] [INFO] [src/main.ts:7] Hello World'' @ [CHR 0x0A]]\<rparr>,
             console_print Err ''mkdir failed'' Runtime0)"
proof -
  have t: "createNewLog_try host0 (io0\<lparr>mkdirOk := False\<rparr>) LInfo (JString ''Hello World'') []
       [foreground_green] 2 (Log0 0) Runtime0
     = Some (Throw MkdirFailed,
             (Log0 0)\<lparr>logDataQueue := [''[9:05:00 AM] [INFO] [src/main.ts:7] Hello World'' @ [CHR 0x0A]]\<rparr>,
             Runtime0)"
    by (simp add: createNewLog_try_def createNewLog_save_def substitute_def Log0_fields
        getFileCode_def host0_def log_text_def writeLog_def writeLog_begin_def Let_def
        closeLogs_def io0_def)
  show ?thesis
    using t level_methods_never_throw [of host0 "io0\<lparr>mkdirOk := False\<rparr>"
        "JString ''Hello World''" "[]" "Log0 0" Runtime0]
    by (simp add: Log_info_def)
qed

text \<open>What a call of \<^verbatim>\<open>error\<close> that saves to the file leaves on the disk.\<close>

lemma Log_error_appends:
  assumes sv: "shouldSaveConsole l" and nt: "\<not> logFileTaken l"
    and h: "case logFile l of None \<Rightarrow> True | Some f \<Rightarrow> openFiles w f = Some (absolutePath l w)"
    and ok: "ioOk e"
  shows "\<exists>l' w'. Log_error h0 e message args l w = Some (Normal JNull, l', w')
     \<and> (case substitute message args of
          Throw x \<Rightarrow> files w' = files w \<and> l' = l
        | Normal c \<Rightarrow>
            (case ToString c of
               None \<Rightarrow> files w' = files w \<and> l' = l
             | Some s \<Rightarrow>
                 logDataQueue l' = []
                 \<and> files w' = (files w)(target e l w \<mapsto> file_content w (target e l w)
                      @ concat (logDataQueue l)
                      @ log_text h0 LError (getFileCode h0 InCreateNewLog 3) s l)))"
proof (cases "substitute message args")
  case (Throw x)
  then show ?thesis
    by (simp add: Log_error_def createNewLog_def createNewLog_try_def console_print_def)
next
  case (Normal c)
  let ?file = "getFileCode h0 InCreateNewLog 3"
  have save: "\<exists>r l' w'. createNewLog_save h0 e LError ?file c l w1 = (r, l', w')
        \<and> (case ToString c of
               None \<Rightarrow> files w' = files w \<and> l' = l
             | Some s \<Rightarrow>
                 logDataQueue l' = []
                 \<and> files w' = (files w)(target e l w \<mapsto> file_content w (target e l w)
                      @ concat (logDataQueue l) @ log_text h0 LError ?file s l))"
    if d: "disk w1 = disk w" for w1
  proof (cases "ToString c")
    case None
    then show ?thesis using sv d by (simp add: createNewLog_save_def disk_def)
  next
    case (Some s)
    let ?text = "log_text h0 LError ?file s l"
    have h1: "case logFile l of None \<Rightarrow> True | Some f \<Rightarrow> openFiles w1 f = Some (absolutePath l w1)"
      using h d by (simp add: disk_def absolutePath_def rootFolderToLogs_def split: option.splits)
    obtain l' w' where r: "writeLog e ?text l w1 = (Returned, l', w')" "logDataQueue l' = []"
      "files w' = (files w1)(target e l w1 \<mapsto>
          file_content w1 (target e l w1) @ concat (logDataQueue l) @ ?text)"
      using writeLog_flushes [OF h1 nt ok, of ?text] by blast
    moreover have "files w1 = files w" using d by (simp add: disk_def)
    ultimately show ?thesis
      using sv Some by (simp add: createNewLog_save_def target_disk [OF d] file_content_disk [OF d])
  qed
  have "\<exists>r l' w'. createNewLog_try h0 e LError message args [foreground_red] 2 l w = Some (r, l', w')
        \<and> (case ToString c of
               None \<Rightarrow> files w' = files w \<and> l' = l
             | Some s \<Rightarrow>
                 logDataQueue l' = []
                 \<and> files w' = (files w)(target e l w \<mapsto> file_content w (target e l w)
                      @ concat (logDataQueue l) @ log_text h0 LError ?file s l))"
  proof (cases "shouldConsoleLog l")
    case False
    then show ?thesis
      using save [of w] Normal by (simp add: createNewLog_try_def numeral_3_eq_3)
  next
    case True
    obtain r w1 where c: "custom h0 c [foreground_red] (2 + 1) (LError = LError)
        (Label (relativePathString l)) w = Some (r, w1)"
      using custom_returns [OF recolor_level_colors(4)] by blast
    have d1: "disk w1 = disk w" by (rule disk_custom [OF c])
    show ?thesis
    proof (cases r)
      case (Throw x)
      have "ToString c = None"
      proof (cases "ToString c")
        case (Some s)
        obtain w2 where "custom h0 c [foreground_red] (2 + 1) (LError = LError)
            (Label (relativePathString l)) w = Some (Normal JNull, w2)"
          using custom_Normal [OF Some recolor_level_colors(4)] by blast
        then show ?thesis using c Throw by simp
      qed simp
      then show ?thesis
        using c Throw True Normal d1 by (simp add: createNewLog_try_def disk_def)
    next
      case n: (Normal v)
      have "disk (valuesLog h0 l w1) = disk w"
        using d1 by (simp add: disk_valuesLog)
      from save [OF this] show ?thesis
        using c n True Normal by (simp add: createNewLog_try_def numeral_3_eq_3)
    qed
  qed
  then obtain r l' w' where t:
    "createNewLog_try h0 e LError message args [foreground_red] 2 l w = Some (r, l', w')"
    "case ToString c of
       None \<Rightarrow> files w' = files w \<and> l' = l
     | Some s \<Rightarrow>
         logDataQueue l' = []
         \<and> files w' = (files w)(target e l w \<mapsto> file_content w (target e l w)
              @ concat (logDataQueue l) @ log_text h0 LError ?file s l)"
    by blast
  show ?thesis
  proof (cases r)
    case (Throw x)
    then show ?thesis
      using t Normal
      by (auto simp: Log_error_def createNewLog_def console_print_def split: option.splits)
  next
    case n: (Normal u)
    then show ?thesis
      using t Normal by (simp add: Log_error_def createNewLog_def)
  qed
qed

lemma log_text_LError:
  "log_text h LError file s l =
     ''['' @ timestamp h @ ''] [ERROR] '' @ file @ '' '' @ s @ [CHR 0x0A]
     @ ''['' @ timestamp h @ ''] '' @ arrow @ '' '' @ inspect h None (JPlain (logValues l)) @ [CHR 0x0A]"
  by (simp add: log_text_def)

lemma count_log_text_LError:
  "count_list (log_text h LError file s l) (CHR 0x0A) =
     2 + 2 * count_list (timestamp h) (CHR 0x0A) + count_list file (CHR 0x0A)
       + count_list s (CHR 0x0A) + count_list (inspect h None (JPlain (logValues l))) (CHR 0x0A)"
  by (simp add: log_text_def arrow_def)

text \<open>
  C7, as the code has it. A call of \<^verbatim>\<open>error\<close> that is awaited, with nothing else running
  during it, on an instance that saves to the file, whose guard flag is false and whose
  file, if it holds one, is open on the path of its stored date (so it is after
  construction and after calls that were each awaited), with every file operation
  succeeding and every write taking its whole buffer. If the message, after the
  substitution of lines 319-321, has a string form, the call appends to today's file
  the buffers that earlier failed calls have left in the queue, followed by one text of
  its own: the message line \<^verbatim>\<open>[h:mm:ss A] [ERROR] [caller-tag] message\<close> and the values
  line \<^verbatim>\<open>[h:mm:ss A]\<close>, arrow, inspected values, each ended by a line feed. The text has
  two line feeds and one more for each line feed inside the time, the tag, the message
  and the inspected values: it is exactly two lines when those hold none. If the
  message has no string form, the call leaves the files as they are.
\<close>

theorem error_writes_message_and_values:
  assumes "shouldSaveConsole l" "\<not> logFileTaken l"
    "case logFile l of None \<Rightarrow> True | Some f \<Rightarrow> openFiles w f = Some (absolutePath l w)"
    "ioOk e"
  shows "\<exists>l' w'. Log_error h e message args l w = Some (Normal JNull, l', w')
     \<and> (case substitute message args of
          Throw x \<Rightarrow> files w' = files w
        | Normal c \<Rightarrow>
            (case ToString c of
               None \<Rightarrow> files w' = files w
             | Some s \<Rightarrow>
                 files w' = (files w)(target e l w \<mapsto> file_content w (target e l w)
                    @ concat (logDataQueue l)
                    @ ''['' @ timestamp h @ ''] [ERROR] '' @ getFileCode h InCreateNewLog 3 @ '' '' @ s
                    @ [CHR 0x0A]
                    @ ''['' @ timestamp h @ ''] '' @ arrow @ '' '' @ inspect h None (JPlain (logValues l))
                    @ [CHR 0x0A])
                 \<and> logDataQueue l' = []
                 \<and> count_list
                      (''['' @ timestamp h @ ''] [ERROR] '' @ getFileCode h InCreateNewLog 3 @ '' '' @ s
                       @ [CHR 0x0A]
                       @ ''['' @ timestamp h @ ''] '' @ arrow @ '' '' @ inspect h None (JPlain (logValues l))
                       @ [CHR 0x0A])
                      (CHR 0x0A)
                    = 2 + 2 * count_list (timestamp h) (CHR 0x0A)
                        + count_list (getFileCode h InCreateNewLog 3) (CHR 0x0A)
                        + count_list s (CHR 0x0A)
                        + count_list (inspect h None (JPlain (logValues l))) (CHR 0x0A)))"
proof -
  obtain l' w' where r: "Log_error h e message args l w = Some (Normal JNull, l', w')"
    "case substitute message args of
       Throw x \<Rightarrow> files w' = files w \<and> l' = l
     | Normal c \<Rightarrow>
         (case ToString c of
            None \<Rightarrow> files w' = files w \<and> l' = l
          | Some s \<Rightarrow>
              logDataQueue l' = []
              \<and> files w' = (files w)(target e l w \<mapsto> file_content w (target e l w)
                   @ concat (logDataQueue l)
                   @ log_text h LError (getFileCode h InCreateNewLog 3) s l))"
    using Log_error_appends [OF assms, of h message args] by blast
  show ?thesis
    using r count_log_text_LError [of h "getFileCode h InCreateNewLog 3" _ l]
    unfolding log_text_LError
    by (auto split: completion.splits option.splits)
qed

text \<open>
  The witness: \<^verbatim>\<open>error("Hello World")\<close> on the sample instance, printing to the console
  too, after a call of \<^verbatim>\<open>info\<close> that failed and left its line in the queue.
\<close>

theorem error_writes_message_and_values_witness:
  "shouldSaveConsole ((Log0 0)\<lparr>shouldConsoleLog := True, logDataQueue := [''first'' @ [CHR 0x0A]]\<rparr>)
   \<and> \<not> logFileTaken ((Log0 0)\<lparr>shouldConsoleLog := True, logDataQueue := [''first'' @ [CHR 0x0A]]\<rparr>)
   \<and> logFile ((Log0 0)\<lparr>shouldConsoleLog := True, logDataQueue := [''first'' @ [CHR 0x0A]]\<rparr>) = None
   \<and> ioOk io0
   \<and> substitute (JString ''Hello World'') [] = Normal (JString ''Hello World'')
   \<and> ToString (JString ''Hello World'') = Some ''Hello World''
   \<and> files (snd (snd (the (Log_error host0 io0 (JString ''Hello World'') []
                 ((Log0 0)\<lparr>shouldConsoleLog := True, logDataQueue := [''first'' @ [CHR 0x0A]]\<rparr>)
                 Runtime0))))
        [''home'', ''app'', ''logs'', ''2024-01-01'', ''test.log'']
      = Some (''first'' @ [CHR 0x0A]
              @ ''[9:05:00 AM] [ERROR] [src/main.ts:7] Hello World'' @ [CHR 0x0A]
              @ ''[9:05:00 AM] '' @ arrow @ '' { some_value: test }'' @ [CHR 0x0A])
   \<and> count_list (''[9:05:00 AM] [ERROR] [src/main.ts:7] Hello World'' @ [CHR 0x0A]
              @ ''[9:05:00 AM] '' @ arrow @ '' { some_value: test }'' @ [CHR 0x0A]) (CHR 0x0A) = 2"
proof -
  let ?l = "(Log0 0)\<lparr>shouldConsoleLog := True, logDataQueue := [''first'' @ [CHR 0x0A]]\<rparr>"
  have f: "logFile ?l = None" by (simp add: Log0_fields)
  have h: "shouldSaveConsole ?l" "\<not> logFileTaken ?l"
    "case logFile ?l of None \<Rightarrow> True | Some f \<Rightarrow> openFiles Runtime0 f = Some (absolutePath ?l Runtime0)"
    "ioOk io0"
    by (simp_all add: Log0_fields ioOk_io0)
  have m: "substitute (JString ''Hello World'') [] = Normal (JString ''Hello World'')"
    "ToString (JString ''Hello World'') = Some ''Hello World''"
    by (simp_all add: substitute_def)
  have t: "target io0 ((Log0 0)\<lparr>shouldConsoleLog := b, logDataQueue := q\<rparr>) Runtime0
      = [''home'', ''app'', ''logs'', ''2024-01-01'', ''test.log'']" for b q
    using target_io0 [of 0] by (simp add: target_def absolutePath_def)
  have c: "file_content Runtime0 p = []" for p
    by (simp add: file_content_def Runtime0_def)
  have g: "getFileCode host0 InCreateNewLog 3 = ''[src/main.ts:7]''" "timestamp host0 = ''9:05:00 AM''"
    "inspect host0 None v = ''{ some_value: test }''" for v
    by (simp_all add: getFileCode_def host0_def)
  have q: "logDataQueue ?l = [''first'' @ [CHR 0x0A]]" by simp
  show ?thesis
    using h(1,2,4) f m
      error_writes_message_and_values [OF h, of host0 "JString ''Hello World''" "[]"]
    by (auto simp: t c g m q arrow_def)
qed

text \<open>
  Against C7 as stated, with \<^verbatim>\<open>values\<close> not empty: \<^verbatim>\<open>error("a\nb")\<close> writes three
  lines, \<^verbatim>\<open>error(Object.create(null))\<close> writes none, and \<^verbatim>\<open>error("Hello World")\<close> writes
  none when \<^verbatim>\<open>Deno.mkdir\<close> fails.
\<close>

theorem error_writes_two_lines_counterexample:
  "shouldSaveConsole (Log0 0) \<and> logValues (Log0 0) = [(''some_value'', JString ''test'')]
   \<and> files (snd (snd (the (Log_error host0 io0 (JString (''a'' @ [CHR 0x0A] @ ''b'')) []
                 (Log0 0) Runtime0))))
        [''home'', ''app'', ''logs'', ''2024-01-01'', ''test.log'']
      = Some (''[9:05:00 AM] [ERROR] [src/main.ts:7] a'' @ [CHR 0x0A] @ ''b'' @ [CHR 0x0A]
              @ ''[9:05:00 AM] '' @ arrow @ '' { some_value: test }'' @ [CHR 0x0A])
   \<and> count_list (''[9:05:00 AM] [ERROR] [src/main.ts:7] a'' @ [CHR 0x0A] @ ''b'' @ [CHR 0x0A]
              @ ''[9:05:00 AM] '' @ arrow @ '' { some_value: test }'' @ [CHR 0x0A]) (CHR 0x0A) = 3
   \<and> files (snd (snd (the (Log_error host0 io0 (JForeign None) [] (Log0 0) Runtime0))))
        [''home'', ''app'', ''logs'', ''2024-01-01'', ''test.log'']
      = None
   \<and> files (snd (snd (the (Log_error host0 (io0\<lparr>mkdirOk := False\<rparr>) (JString ''Hello World'') []
                 (Log0 0) Runtime0))))
        [''home'', ''app'', ''logs'', ''2024-01-01'', ''test.log'']
      = None"
proof -
  have h: "shouldSaveConsole (Log0 0)" "\<not> logFileTaken (Log0 0)"
    "case logFile (Log0 0) of None \<Rightarrow> True
     | Some f \<Rightarrow> openFiles Runtime0 f = Some (absolutePath (Log0 0) Runtime0)"
    "ioOk io0"
    by (simp_all add: Log0_fields ioOk_io0)
  have m: "substitute (JString s) [] = Normal (JString s)"
    "substitute (JForeign None) [] = Normal (JForeign None)" for s
    by (simp_all add: substitute_def)
  have c: "file_content Runtime0 p = []" "files Runtime0 p = None" for p
    by (simp_all add: file_content_def Runtime0_def)
  have g: "getFileCode host0 InCreateNewLog 3 = ''[src/main.ts:7]''" "timestamp host0 = ''9:05:00 AM''"
    "inspect host0 None v = ''{ some_value: test }''" for v
    by (simp_all add: getFileCode_def host0_def)
  have v: "logValues (Log0 0) = [(''some_value'', JString ''test'')]" "logDataQueue (Log0 0) = []"
    by (simp_all add: Log0_fields)
  have 1: "files (snd (snd (the (Log_error host0 io0 (JString (''a'' @ [CHR 0x0A] @ ''b'')) []
                 (Log0 0) Runtime0))))
        [''home'', ''app'', ''logs'', ''2024-01-01'', ''test.log'']
      = Some (''[9:05:00 AM] [ERROR] [src/main.ts:7] a'' @ [CHR 0x0A] @ ''b'' @ [CHR 0x0A]
              @ ''[9:05:00 AM] '' @ arrow @ '' { some_value: test }'' @ [CHR 0x0A])"
    using Log_error_appends [OF h, of host0 "JString (''a'' @ [CHR 0x0A] @ ''b'')" "[]"]
    by (auto simp: m target_io0 c g log_text_LError v)
  have 2: "files (snd (snd (the (Log_error host0 io0 (JForeign None) [] (Log0 0) Runtime0))))
        [''home'', ''app'', ''logs'', ''2024-01-01'', ''test.log''] = None"
    using Log_error_appends [OF h, of host0 "JForeign None" "[]"]
    by (auto simp: m c)
  have 3: "files (snd (snd (the (Log_error host0 (io0\<lparr>mkdirOk := False\<rparr>) (JString ''Hello World'') []
                 (Log0 0) Runtime0))))
        [''home'', ''app'', ''logs'', ''2024-01-01'', ''test.log''] = None"
    by (simp add: Log_error_def createNewLog_def createNewLog_try_def createNewLog_save_def
        substitute_def Log0_fields getFileCode_def host0_def log_text_def writeLog_def
        writeLog_begin_def Let_def closeLogs_def io0_def console_print_def Runtime0_def)
  show ?thesis
    using h(1) v(1) 1 2 3 by (simp add: arrow_def)
qed


section \<open>Claims about the console window formatter\<close>

text \<open>
  C9, as the code has it. A call of \<^verbatim>\<open>custom\<close> whose message has a text (every value but
  an object whose \<^verbatim>\<open>toString\<close> is missing or throws), with at least one colour, every
  colour a value of \<^verbatim>\<open>terminalColor\<close>, and with no colour \<^verbatim>\<open>special.normal\<close> unless the
  text holds no \<^verbatim>\<open>special.normal\<close>: the loop over the colours ends, the call returns
  \<^verbatim>\<open>null\<close>, touches nothing but the console and the open window, and prints as follows.
  When the label is \<^verbatim>\<open>true\<close> and a window is open, or the label equals
  \<^verbatim>\<open>relativePathBeingDisplayed\<close>, the lines are printed after the middle prefix and the
  open window stays as it is. Otherwise a footer is printed if a window is open; then,
  for a label that is a string and not empty, a header with the label is printed, the
  label becomes the open window and the lines are printed after the middle prefix; for
  any other label no window is open afterwards and the lines are printed without
  prefix. In each case every line of the text after the first starts with the middle
  prefix in red. The lines go to the error stream exactly when the call counts as an
  error.
\<close>

theorem custom_window_states:
  assumes "parse_error w message isError = (m1, e1)" "parse_message h m1 = Normal m2"
    "set (c0 # cs) \<subseteq> set TerminalColor"
    "special_normal \<notin> set (c0 # cs) \<or> \<not> str_includes m2 special_normal"
  shows "\<exists>w' m3. custom h message (c0 # cs) getLine isError rp w = Some (Normal JNull, w')
    \<and> recolor (concat (c0 # cs)) m2 = Some m3
    \<and> disk w' = disk w
    \<and> (let lines =
              (case str_split (CHR 0x0A) m3 of
                 [] \<Rightarrow> []
               | first # rest \<Rightarrow>
                   str_join [CHR 0x0A]
                     (first # map (\<lambda>line. special_normal @ foreground_red @ middlePrefix
                                            @ special_normal @ line) rest));
            body = colorString
                     (replaceAll (getFileCode h InCustom (getLine + 1)) special_normal
                        (concat (file_color c0)))
                     (file_color c0) [special_normal]
                   @ '' '' @ colorString lines (c0 # cs) [special_normal];
            s = (if e1 then Err else Out);
            footer = (if relativePathBeingDisplayed w \<noteq> [] then [(Out, footerPrefix)] else [])
        in if (rp = Continue \<and> relativePathBeingDisplayed w \<noteq> [])
              \<or> rp = Label (relativePathBeingDisplayed w)
           then relativePathBeingDisplayed w' = relativePathBeingDisplayed w
              \<and> console w' = console w
                   @ [(s, colorString middlePrefix (c0 # cs) [special_normal] @ body)]
           else (case rp of
                   Label lb \<Rightarrow>
                     if lb \<noteq> []
                     then relativePathBeingDisplayed w' = lb
                        \<and> console w' = console w @ footer
                             @ [(Out, headerPrefix @ lb),
                                (s, colorString middlePrefix (c0 # cs) [special_normal] @ body)]
                     else relativePathBeingDisplayed w' = []
                        \<and> console w' = console w @ footer
                             @ [(s, colorString [] (c0 # cs) [special_normal] @ body)]
                 | _ \<Rightarrow>
                     relativePathBeingDisplayed w' = []
                     \<and> console w' = console w @ footer
                          @ [(s, colorString [] (c0 # cs) [special_normal] @ body)]))"
proof -
  obtain m3 where r: "recolor (concat (c0 # cs)) m2 = Some m3"
    using recolor_TerminalColor [OF assms(3,4)] by blast
  then have r': "recolor (c0 @ concat cs) m2 = Some m3" by simp
  show ?thesis
    using assms(1,2) r r'
    by (cases rp)
       (auto simp: custom_def custom_window_def console_print_def disk_def Let_def indent_lines_eq)
qed

text \<open>
  The witness: a message of two lines, the first for its label. The output is the
  header, and the first line after the middle prefix with the second after the red one.
\<close>

theorem custom_window_states_witness:
  "parse_error Runtime0 (JString (''Hello'' @ [CHR 0x0A] @ ''World'')) False
     = (JString (''Hello'' @ [CHR 0x0A] @ ''World''), False)
   \<and> parse_message host0 (JString (''Hello'' @ [CHR 0x0A] @ ''World''))
     = Normal (''Hello'' @ [CHR 0x0A] @ ''World'')
   \<and> set [foreground_green] \<subseteq> set TerminalColor
   \<and> special_normal \<notin> set [foreground_green]
   \<and> relativePathBeingDisplayed
        (snd (the (custom host0 (JString (''Hello'' @ [CHR 0x0A] @ ''World'')) [foreground_green] 2 False
                     (Label ''test.log'') Runtime0)))
      = ''test.log''
   \<and> console
        (snd (the (custom host0 (JString (''Hello'' @ [CHR 0x0A] @ ''World'')) [foreground_green] 2 False
                     (Label ''test.log'') Runtime0)))
      = [(Out, headerPrefix @ ''test.log''),
         (Out, foreground_green @ middlePrefix @ special_normal
               @ foreground_white @ ESC # ''[42m'' @ ''[src/main.ts:7]'' @ special_normal
               @ '' ''
               @ foreground_green
               @ ''Hello'' @ [CHR 0x0A]
               @ special_normal @ foreground_red @ middlePrefix @ special_normal @ ''World''
               @ special_normal)]"
proof -
  have h: "parse_error Runtime0 (JString s) False = (JString s, False)"
    "parse_message host0 (JString s) = Normal s" for s
    by (simp_all add: parse_error_def parse_message_def)
  have c: "set [foreground_green] \<subseteq> set TerminalColor" "special_normal \<notin> set [foreground_green]"
    by (simp_all add: TerminalColor_def foreground_green_def special_normal_def)
  have r: "relativePathBeingDisplayed Runtime0 = []" "console Runtime0 = []"
    by (simp_all add: Runtime0_def)
  have f: "file_color foreground_green = [foreground_white, ESC # ''[42m'']"
    by (simp add: file_color_def charAt_def foreground_green_def)
  have g: "replaceAll (getFileCode host0 InCustom n) special_normal c = ''[src/main.ts:7]''" for n c
    by (simp add: getFileCode_def host0_def replaceAll_def special_normal_def starts_with_def ESC_def)
  have n: "\<not> str_includes (''Hello'' @ [CHR 0x0A] @ ''World'') special_normal"
    by (simp add: special_normal_def starts_with_def ESC_def)
  have m: "recolor c (''Hello'' @ [CHR 0x0A] @ ''World'') = Some (''Hello'' @ [CHR 0x0A] @ ''World'')" for c
    by (rule recolor_plain [OF n])
  have sp: "str_split (CHR 0x0A) (''Hello'' @ [CHR 0x0A] @ ''World'') = [''Hello'', ''World'']"
    by simp
  show ?thesis
    using h c
      custom_window_states [OF h c(1) disjI1 [OF c(2)],
        of "''Hello'' @ [CHR 0x0A] @ ''World''" 2 "Label ''test.log''"]
    unfolding m
    by (auto simp: r f g sp Let_def colorString_def)
qed

text \<open>
  Against C9 as stated, with the window \<^verbatim>\<open>a\<close> open and the label \<^verbatim>\<open>b\<close>: for the message
  \<^verbatim>\<open>Object.create(null)\<close> and for an empty list of colours \<^verbatim>\<open>custom\<close> throws before it
  reaches the window, so no footer and no header is printed and the window \<^verbatim>\<open>a\<close> stays
  open; with the colour \<^verbatim>\<open>special.normal\<close> and a message that holds it, the loop of lines
  425-430 does not end and \<^verbatim>\<open>custom\<close> does not return.
\<close>

theorem custom_window_states_counterexample:
  "custom host0 (JForeign None) [foreground_green] 0 False (Label ''b'')
       (Runtime0\<lparr>relativePathBeingDisplayed := ''a''\<rparr>)
     = Some (Throw TypeError, Runtime0\<lparr>relativePathBeingDisplayed := ''a''\<rparr>)
   \<and> custom host0 (JString ''Hello'') [] 0 False (Label ''b'')
       (Runtime0\<lparr>relativePathBeingDisplayed := ''a''\<rparr>)
     = Some (Throw TypeError, Runtime0\<lparr>relativePathBeingDisplayed := ''a''\<rparr>)
   \<and> custom host0 (JString special_normal) [special_normal] 0 False (Label ''b'')
       (Runtime0\<lparr>relativePathBeingDisplayed := ''a''\<rparr>)
     = None"
proof -
  have n: "\<not> str_includes ''Hello'' special_normal"
    by (simp add: special_normal_def starts_with_def ESC_def)
  have i: "str_includes special_normal special_normal" "CHR ''$'' \<notin> set special_normal"
    by (simp_all add: special_normal_def starts_with_def ESC_def)
  have l: "recolor special_normal special_normal = None"
    by (rule recolor_never_ends [OF i(2) i(1) i(1)])
  show ?thesis
    using recolor_plain [OF n, of "[]"] l
    by (simp add: custom_def parse_error_def parse_message_def)
qed

text \<open>
  C10, as the code has it. The case analysis of lines 420-424 gives \<^verbatim>\<open>"null"\<close> for
  \<^verbatim>\<open>null\<close>, \<^verbatim>\<open>"undefined"\<close> for \<^verbatim>\<open>undefined\<close>, the inspection of depth 5 for a plain object
  and for an array, and for any other value its \<^verbatim>\<open>toString()\<close>. It throws for exactly
  one kind of value: an object whose \<^verbatim>\<open>toString\<close> is missing or throws. For every other
  message \<^verbatim>\<open>custom\<close> returns \<^verbatim>\<open>null\<close>, with each colour of the level methods.
\<close>

theorem parse_message_cases:
  "parse_message h JNull = Normal ''null''
   \<and> parse_message h JUndefined = Normal ''undefined''
   \<and> parse_message h (JPlain kvs) = Normal (inspect h (Some 5) (JPlain kvs))
   \<and> parse_message h (JArray xs) = Normal (inspect h (Some 5) (JArray xs))
   \<and> (\<not> isObject m \<and> \<not> Array_isArray m \<and> m \<noteq> JNull \<and> m \<noteq> JUndefined \<longrightarrow>
        parse_message h m = (case ToString m of None \<Rightarrow> Throw TypeError | Some s \<Rightarrow> Normal s))
   \<and> ((\<exists>x. parse_message h m = Throw x) = (m = JForeign None))
   \<and> (m \<noteq> JForeign None \<longrightarrow>
        (\<exists>w1. custom h m [foreground_cyan] getLine isError rp w = Some (Normal JNull, w1))
        \<and> (\<exists>w1. custom h m [foreground_green] getLine isError rp w = Some (Normal JNull, w1))
        \<and> (\<exists>w1. custom h m [foreground_yellow] getLine isError rp w = Some (Normal JNull, w1))
        \<and> (\<exists>w1. custom h m [foreground_red] getLine isError rp w = Some (Normal JNull, w1)))"
proof -
  have "\<exists>w1. custom h m [c] getLine isError rp w = Some (Normal JNull, w1)"
    if nf: "m \<noteq> JForeign None" and rc: "\<And>m. \<exists>r. recolor (concat [c]) m = Some r" for c
  proof -
    obtain t where "parse_message h (fst (parse_error w m isError)) = Normal t"
      using parse_message_not_foreign [OF nf] by blast
    from custom_Normal_parsed [OF this rc] show ?thesis .
  qed
  then show ?thesis
    using recolor_level_colors parse_message_Throw [of h m]
    by (simp add: parse_message_def)
qed

text \<open>The witness: a number.\<close>

theorem parse_message_cases_witness:
  "\<not> isObject (JNumber ''42'' True) \<and> \<not> Array_isArray (JNumber ''42'' True) \<and> JNumber ''42'' True \<noteq> JNull
   \<and> JNumber ''42'' True \<noteq> JUndefined \<and> JNumber ''42'' True \<noteq> JForeign None
   \<and> parse_message host0 (JNumber ''42'' True) = Normal ''42''
   \<and> fst (the (custom host0 (JNumber ''42'' True) [foreground_green] 2 False Continue Runtime0)) = Normal JNull"
proof -
  have d: "ToString (JNumber ''42'' True) = Some ''42''"
    by simp
  show ?thesis
    using parse_message_cases [of host0 "[]" "[]" "JNumber ''42'' True" 2 False Continue Runtime0] d
    by auto
qed

text \<open>
  Against C10 as stated: \<^verbatim>\<open>Log.info(Object.create(null))\<close>. The value is defined and is
  neither a plain object nor an array, so line 423 calls its \<^verbatim>\<open>toString\<close>, which it
  does not have: \<^verbatim>\<open>custom\<close> throws.
\<close>

theorem parse_message_total_counterexample:
  "parse_message host0 (JForeign None) = Throw TypeError
   \<and> output_info host0 (JForeign None) True Runtime0 = Some (Throw TypeError, Runtime0)"
  by (simp add: parse_message_def output_info_def custom_def parse_error_def)

section \<open>Awaited calls keep one file, on the path of the stored date\<close>

lemma tidyI:
  "(\<And>f. logFile l = Some f \<Longrightarrow> openFiles w f = Some (absolutePath l w) \<and> f < nextRid w) \<Longrightarrow>
   (\<And>f p. openFiles w f = Some p \<Longrightarrow> logFile l = Some f) \<Longrightarrow> \<not> logFileTaken l \<Longrightarrow> tidy l w"
  unfolding tidy_def by blast

lemma tidyD:
  assumes "tidy l w"
  shows "logFile l = Some f \<Longrightarrow> openFiles w f = Some (absolutePath l w) \<and> f < nextRid w"
    and "openFiles w g = Some p \<Longrightarrow> logFile l = Some g"
    and "\<not> logFileTaken l"
  using assms unfolding tidy_def by blast+

lemma tidy_no_file:
  assumes "logFile l = None"
  shows "tidy l w = (openFiles w = Map.empty \<and> \<not> logFileTaken l)"
proof -
  have "(\<forall>f p. openFiles w f \<noteq> Some p) = (openFiles w = Map.empty)"
  proof
    assume a: "\<forall>f p. openFiles w f \<noteq> Some p"
    show "openFiles w = Map.empty"
    proof
      fix f show "openFiles w f = None" using a by (cases "openFiles w f") simp_all
    qed
  next
    assume "openFiles w = Map.empty"
    then show "\<forall>f p. openFiles w f \<noteq> Some p" by simp
  qed
  then show ?thesis using assms by (simp add: tidy_def)
qed

lemma closeLogs_Some:
  "logFile l = Some f \<Longrightarrow>
   closeLogs l w = (l\<lparr>logFile := None, logFileTimeout := None\<rparr>,
     (if truthy_id (logFileTimeout l) then clearTimeout (the (logFileTimeout l)) (FsFile_close f w)
      else FsFile_close f w))"
  by (simp add: closeLogs_def)

lemma openFiles_closed:
  "openFiles (if b then clearTimeout t (FsFile_close f w) else FsFile_close f w) = (openFiles w)(f := None)"
  by (simp add: clearTimeout_def FsFile_close_def)

lemma tidy_closeLogs:
  assumes "tidy l w" "closeLogs l w = (l', w')"
  shows "tidy l' w' \<and> logFile l' = None"
proof (cases "logFile l")
  case None
  then show ?thesis using assms by (simp add: closeLogs_None)
next
  case (Some f)
  have l': "l' = l\<lparr>logFile := None, logFileTimeout := None\<rparr>"
    and w': "openFiles w' = (openFiles w)(f := None)"
    using assms(2) openFiles_closed [of "truthy_id (logFileTimeout l)" "the (logFileTimeout l)" f w]
    by (auto simp: closeLogs_Some [OF Some])
  have "openFiles w' = Map.empty"
  proof
    fix g
    show "openFiles w' g = None"
      using tidyD(2) [OF assms(1), of g] Some by (cases "g = f"; cases "openFiles w g") (auto simp: w')
  qed
  then show ?thesis
    using tidyD(3) [OF assms(1)] by (simp add: tidy_no_file l')
qed


lemma tidy_frame:
  "tidy l w \<Longrightarrow> logFile l' = logFile l \<Longrightarrow> logFileTaken l' = logFileTaken l \<Longrightarrow>
   logFileDate l' = logFileDate l \<Longrightarrow> relativePath l' = relativePath l \<Longrightarrow>
   openFiles w' = openFiles w \<Longrightarrow> cwd w' = cwd w \<Longrightarrow> nextRid w' = nextRid w \<Longrightarrow> tidy l' w'"
  unfolding tidy_def absolutePath_def rootFolderToLogs_def by metis

lemma tidy_opened:
  assumes "logFile l = None" "openFiles w = Map.empty" "\<not> logFileTaken l"
    "logFile l' = Some f" "\<not> logFileTaken l'" "logFileDate l' = logFileDate l"
    "relativePath l' = relativePath l" "cwd w' = cwd w"
    "openFiles w' = [f \<mapsto> absolutePath l w]" "f < nextRid w'"
  shows "tidy l' w'"
proof (rule tidyI)
  have p: "absolutePath l' w' = absolutePath l w"
    using assms by (simp add: absolutePath_def rootFolderToLogs_def)
  show "openFiles w' g = Some (absolutePath l' w') \<and> g < nextRid w'" if "logFile l' = Some g" for g
    using that assms(4,9,10) p by simp
  show "logFile l' = Some g" if "openFiles w' g = Some q" for g q
    using that assms(4,9) by (cases "g = f") simp_all
  show "\<not> logFileTaken l'" by (rule assms(5))
qed

lemma tidy_loop:
  assumes t: "tidy l w" and r: "writeLog_loop i l w = (st, l', w')"
  shows "tidy l' w' \<and> waiting st l' w'"
proof (cases "i < length (logDataQueue l)")
  case True
  then have "l' = l" "w' = w" "waiting st l w"
    using r by (auto simp: writeLog_loop_def split: option.splits)
  then show ?thesis using t by simp
next
  case False
  let ?l1 = "l\<lparr>logDataQueue := [], logFileTaken := False\<rparr>"
  have t1: "tidy ?l1 w"
    using tidyD(3) [OF t] by (intro tidy_frame [OF t]) simp_all
  show ?thesis
  proof (cases "truthy_id (logFileTimeout l)")
    case True
    then show ?thesis using r False t1 by (auto simp: writeLog_loop_def Let_def)
  next
    case nt: False
    obtain l2 w2 where c: "closeLogs ?l1 w = (l2, w2)" by (cases "closeLogs ?l1 w")
    have "tidy l2 w2" using tidy_closeLogs [OF t1 c] by simp
    then show ?thesis using r False nt c by (auto simp: writeLog_loop_def Let_def)
  qed
qed


lemma tidy_begin:
  assumes t: "tidy l w" and b: "writeLog_begin date d l w = (st, l', w')"
  shows "tidy l' w' \<and> waiting st l' w'"
proof -
  let ?l1 = "l\<lparr>logDataQueue := logDataQueue l @ [d]\<rparr>"
  have t1: "tidy ?l1 w" by (rule tidy_frame [OF t]) simp_all
  have nt: "\<not> logFileTaken l" by (rule tidyD(3) [OF t])
  show ?thesis
  proof (cases "logFile l = None \<or> logFileDate l \<noteq> date")
    case False
    then have "writeLog_loop 0 ?l1 w = (st, l', w')"
      using b nt by (auto simp: writeLog_begin_def Let_def)
    from tidy_loop [OF t1 this] show ?thesis .
  next
    case True
    obtain l2 w2 where c: "closeLogs ?l1 w = (l2, w2)" by (cases "closeLogs ?l1 w")
    have c2: "tidy l2 w2" "logFile l2 = None"
      using tidy_closeLogs [OF t1 c] by simp_all
    have c3: "closeLogs (?l1\<lparr>logFileDate := date\<rparr>) w = (l2\<lparr>logFileDate := date\<rparr>, w2)"
      using c by (auto simp: closeLogs_def split: option.splits)
    have "tidy (l2\<lparr>logFileDate := date\<rparr>) w2"
      using c2 by (simp add: tidy_no_file)
    moreover have "writeLog_begin date d l w =
        (Suspended (AwaitMkdir (absolutePath (l2\<lparr>logFileDate := date\<rparr>) w2)),
         l2\<lparr>logFileDate := date\<rparr>, w2)"
      using nt True c3 by (simp add: writeLog_begin_def Let_def)
    then have "st = Suspended (AwaitMkdir (absolutePath (l2\<lparr>logFileDate := date\<rparr>) w2))"
      "l' = l2\<lparr>logFileDate := date\<rparr>" "w' = w2"
      using b by simp_all
    ultimately show ?thesis using c2(2) by simp
  qed
qed

lemma tidy_resume:
  assumes t: "tidy l w" and wt: "waiting (Suspended p) l w"
    and r: "writeLog_resume r p l w = (st, l', w')"
  shows "tidy l' w' \<and> waiting st l' w'"
proof (cases p)
  case (AwaitMkdir q)
  then show ?thesis using t wt r by (cases r) auto
next
  case (AwaitOpen q)
  show ?thesis
  proof (cases r)
    case IoFail
    then show ?thesis using t r AwaitOpen by auto
  next
    case IoOk
    have q: "q = absolutePath l w" "logFile l = None"
      using wt AwaitOpen by simp_all
    have e: "openFiles w = Map.empty" "\<not> logFileTaken l"
      using t q(2) by (simp_all add: tidy_no_file)
    show ?thesis
    proof (cases "fileTimeout l = 0")
      case True
      let ?l2 = "l\<lparr>logFile := Some (nextRid w), logFileTimeout := None\<rparr>"
      have "tidy ?l2 (snd (Deno_open q w))"
        by (rule tidy_opened [OF q(2) e, where f = "nextRid w"])
           (simp_all add: Deno_open_def q(1) e)
      moreover have "writeLog_loop 0 ?l2 (snd (Deno_open q w)) = (st, l', w')"
        using r AwaitOpen IoOk True by (simp add: Deno_open_def)
      ultimately show ?thesis by (rule tidy_loop)
    next
      case False
      let ?w1 = "snd (Deno_open q w)"
      let ?l2 = "l\<lparr>logFile := Some (nextRid w), logFileTimeout := Some (nextTimerId ?w1)\<rparr>"
      have "tidy ?l2 (snd (setTimeout (fileTimeout l) ?w1))"
        by (rule tidy_opened [OF q(2) e, where f = "nextRid w"])
           (simp_all add: Deno_open_def setTimeout_def q(1) e)
      moreover have "writeLog_loop 0 ?l2 (snd (setTimeout (fileTimeout l) ?w1)) = (st, l', w')"
        using r AwaitOpen IoOk False by (simp add: Deno_open_def setTimeout_def)
      ultimately show ?thesis by (rule tidy_loop)
    qed
  qed
next
  case (AwaitWrite i q d)
  show ?thesis
  proof (cases r)
    case IoFail
    then show ?thesis using t r AwaitWrite by auto
  next
    case IoOk
    have "tidy l (append_file q d w)"
      by (rule tidy_frame [OF t]) (simp_all add: append_file_def)
    moreover have "writeLog_loop (Suc i) l (append_file q d w) = (st, l', w')"
      using r AwaitWrite IoOk by simp
    ultimately show ?thesis by (rule tidy_loop)
  qed
qed


lemma tidy_run:
  "tidy l w \<Longrightarrow> waiting st l w \<Longrightarrow> writeLog_run e (st, l, w) = (st', l', w') \<Longrightarrow> tidy l' w'"
proof (induction e "(st, l, w)" arbitrary: st l w rule: writeLog_run.induct)
  case (1 e p l w)
  obtain st2 l2 w2 where r: "writeLog_resume (answer e p) p l w = (st2, l2, w2)"
    by (cases "writeLog_resume (answer e p) p l w")
  have "tidy l2 w2 \<and> waiting st2 l2 w2"
    using tidy_resume [OF "1.prems"(1,2) r] .
  moreover have "writeLog_run e (st2, l2, w2) = (st', l', w')"
    using "1.prems"(3) r by simp
  ultimately show ?case
    using "1.hyps" [OF r] by blast
next
  case (2 e l w)
  then show ?case by simp
next
  case (3 e x l w)
  then show ?case by simp
qed

lemma tidy_writeLog:
  assumes "tidy l w" "writeLog e d l w = (st, l', w')"
  shows "tidy l' w'"
proof -
  obtain st1 l1 w1 where b: "writeLog_begin (today e) d l w = (st1, l1, w1)"
    by (cases "writeLog_begin (today e) d l w")
  have "tidy l1 w1" "waiting st1 l1 w1"
    using tidy_begin [OF assms(1) b] by simp_all
  moreover have "writeLog_run e (st1, l1, w1) = (st, l', w')"
    using assms(2) b by (simp add: writeLog_def)
  ultimately show ?thesis by (rule tidy_run)
qed

lemma tidy_fire:
  assumes "tidy l w" "fire t l w = (l', w')"
  shows "tidy l' w'"
proof (cases "t \<in> fst ` set (timers w)")
  case False
  then show ?thesis using assms by (simp add: fire_def)
next
  case True
  let ?w1 = "w\<lparr>timers := filter (\<lambda>(i, due). i \<noteq> t) (timers w)\<rparr>"
  have "tidy l ?w1" by (rule tidy_frame [OF assms(1)]) simp_all
  moreover have "closeLogs l ?w1 = (l', w')" using assms(2) True by (simp add: fire_def)
  ultimately show ?thesis using tidy_closeLogs by blast
qed

lemma tidy_fire_all: "tidy l w \<Longrightarrow> fire_all ts l w = (l', w') \<Longrightarrow> tidy l' w'"
proof (induction ts arbitrary: l w)
  case Nil
  then show ?case by simp
next
  case (Cons t ts)
  obtain l1 w1 where f: "fire t l w = (l1, w1)" by (cases "fire t l w")
  have "tidy l1 w1" using tidy_fire [OF Cons.prems(1) f] .
  moreover have "fire_all ts l1 w1 = (l', w')" using Cons.prems(2) f by simp
  ultimately show ?case by (rule Cons.IH)
qed

lemma tidy_elapse:
  assumes "tidy l w" "elapse ms l w = (l', w')"
  shows "tidy l' w'"
proof -
  have "tidy l (w\<lparr>clock := clock w + ms\<rparr>)"
    by (rule tidy_frame [OF assms(1)]) simp_all
  moreover have "fire_all (map fst (filter (\<lambda>(i, d). d \<le> clock w + ms) (sort_key snd (timers w))))
      l (w\<lparr>clock := clock w + ms\<rparr>) = (l', w')"
    using assms(2) by (simp add: elapse_def Let_def)
  ultimately show ?thesis by (rule tidy_fire_all)
qed

lemma tidy_Log_fields: "openFiles w = Map.empty \<Longrightarrow> tidy (Log_fields date filePath options) w"
  using idle_Log_fields [of date filePath options] by (simp add: tidy_no_file idle_def)

text \<open>
  The date has changed since the file was opened: an awaited call whose operations
  succeed closes the old file, opens the file of the new date and writes its buffer
  there; no other file changes.
\<close>

lemma writeLog_rollover:
  assumes t: "tidy l w" and f: "logFile l = Some f" and d: "logFileDate l \<noteq> today e"
    and q: "logDataQueue l = []" and ok: "ioOk e"
  shows "\<exists>l' w'. writeLog e d l w = (Returned, l', w')
     \<and> openFiles w' f = None
     \<and> logFileDate l' = today e
     \<and> (fileTimeout l \<noteq> 0 \<and> nextTimerId w \<noteq> 0 \<longrightarrow> logFile l' \<noteq> None)
     \<and> tidy l' w'
     \<and> files w' = (files w)(target e l w \<mapsto> file_content w (target e l w) @ d)"
proof -
  obtain st l' w' where r: "writeLog e d l w = (st, l', w')" by (cases "writeLog e d l w")
  have t': "tidy l' w'" by (rule tidy_writeLog [OF t r])
  have nt: "\<not> logFileTaken l" by (rule tidyD(3) [OF t])
  have o: "openFiles w g = None" if "g \<noteq> f" for g
    using tidyD(2) [OF t, of g] f that by (cases "openFiles w g") auto
  have "st = Returned \<and> openFiles w' f = None \<and> logFileDate l' = today e
     \<and> (fileTimeout l \<noteq> 0 \<and> nextTimerId w \<noteq> 0 \<longrightarrow> logFile l' \<noteq> None)
     \<and> files w' = (files w)(target e l w \<mapsto> file_content w (target e l w) @ d)"
    using r f d q ok nt o [of "nextRid w"] tidyD(1) [OF t f]
    apply (simp add: writeLog_def writeLog_begin_def ioOk_def closeLogs_def Let_def target_def)
    apply (auto simp: Deno_open_def setTimeout_def writeLog_loop_def Let_def truthy_id_def
        closeLogs_def FsFile_close_def clearTimeout_def append_file_def absolutePath_def
        rootFolderToLogs_def file_content_def
        split: option.splits if_splits)
    done
  then show ?thesis using r t' by simp
qed

section \<open>The constructor\<close>

lemma fileTimeout_Log_fields:
  "fileTimeout (Log_fields date filePath options) = option_or (Option.bind options opt_fileTimeout) 5000"
  by (simp add: Log_fields_def Let_def set_values_def)

lemma new_Log_returns:
  "\<exists>fp w1. new_Log h date filePath options w = Some (Normal (Log_fields date fp options), w1)
     \<and> disk w1 = disk w \<and> (filePath \<noteq> [] \<longrightarrow> fp = filePath \<and> w1 = w)"
proof (cases "filePath = []")
  case False
  then show ?thesis by (simp add: new_Log_def)
next
  case True
  define m where "m = JString (''Output class Log: filePath is empty, defaulting to '' @ ''other/'' @ randomUUID h)"
  have "ToString m = Some (''Output class Log: filePath is empty, defaulting to '' @ ''other/'' @ randomUUID h)"
    by (simp add: m_def)
  from custom_Normal [OF this recolor_level_colors(3)]
  obtain w1 where c: "custom h m [foreground_yellow] 2 False NoLabel w = Some (Normal JNull, w1)"
    by blast
  have d: "disk w1 = disk w" by (rule disk_custom [OF c])
  have "new_Log h date filePath options w
      = Some (Normal (Log_fields date (''other/'' @ randomUUID h) options), w1)"
    using True c by (simp add: new_Log_def Let_def m_def)
  then show ?thesis using d True by blast
qed

lemma new_Log_idle:
  assumes "new_Log h date filePath options w = Some (Normal l, w1)"
  shows "idle l \<and> fileTimeout l = option_or (Option.bind options opt_fileTimeout) 5000"
proof -
  obtain fp where "l = Log_fields date fp options"
    using new_Log_returns [of h date filePath options w] assms by auto
  then show ?thesis by (simp add: idle_Log_fields fileTimeout_Log_fields)
qed

section \<open>The state an awaited call of a level method needs\<close>

text \<open>
  After construction, and after any calls of \<^verbatim>\<open>writeLog\<close> that were each awaited, timers
  firing in between, the guard flag is false and the file the instance holds is open
  on the path of its stored date.
\<close>

lemma tidy_handle:
  "tidy l w \<Longrightarrow>
   \<not> logFileTaken l
   \<and> (case logFile l of None \<Rightarrow> True | Some f \<Rightarrow> openFiles w f = Some (absolutePath l w))"
  using tidyD(1) [of l w] tidyD(3) [of l w] by (cases "logFile l") simp_all

end
